theory Spec2Isabelle
  imports Main "HOL-Library.Char_ord" "HOL-Library.List_Lexorder" "HOL-Library.Sublist"
begin

section \<open>String primitives of the host language\<close>

text \<open>
  Strings are lists of characters, a character being one byte of the text. The tools only
  look at ASCII content (marker lines, keywords, decimal counts), and white space is the
  ASCII part of what \<^verbatim>\<open>String.prototype.trim\<close> and \<^verbatim>\<open>parseInt\<close> skip: the functions
  below are those of the host on ASCII text, and a statement that depends on white space
  beyond ASCII (\<^verbatim>\<open>U+00A0\<close>, \<^verbatim>\<open>U+FEFF\<close>, \<^verbatim>\<open>U+2028\<close> and the like) is made for ASCII text.
\<close>

abbreviation NL :: char where
  "NL \<equiv> CHR 0x0A"

abbreviation TAB :: char where
  "TAB \<equiv> CHR 0x09"

abbreviation DQ :: char where
  "DQ \<equiv> CHR 0x22"

text \<open>\<^verbatim>\<open>s.split("\n")\<close>: never empty; the empty string gives one empty line.\<close>

fun splitNL :: "string \<Rightarrow> string list" where
  "splitNL [] = [[]]"
| "splitNL (c # cs) =
     (if c = NL then [] # splitNL cs
      else (case splitNL cs of [] \<Rightarrow> [[c]] | l # ls \<Rightarrow> (c # l) # ls))"

text \<open>\<^verbatim>\<open>s.split("\t")\<close>.\<close>

fun splitTAB :: "string \<Rightarrow> string list" where
  "splitTAB [] = [[]]"
| "splitTAB (c # cs) =
     (if c = TAB then [] # splitTAB cs
      else (case splitTAB cs of [] \<Rightarrow> [[c]] | l # ls \<Rightarrow> (c # l) # ls))"

text \<open>\<^verbatim>\<open>xs.join(sep)\<close>.\<close>

fun join :: "string \<Rightarrow> string list \<Rightarrow> string" where
  "join sep [] = []"
| "join sep [x] = x"
| "join sep (x # y # ys) = x @ sep @ join sep (y # ys)"

text \<open>\<^verbatim>\<open>s.startsWith(p)\<close>.\<close>

definition startsWith :: "string \<Rightarrow> string \<Rightarrow> bool" where
  "startsWith s p = (take (length p) s = p)"

text \<open>\<^verbatim>\<open>s.includes(sub)\<close>: \<open>sub\<close> occurs somewhere in \<open>s\<close>.\<close>

fun includesStr :: "string \<Rightarrow> string \<Rightarrow> bool" where
  "includesStr [] sub = (sub = [])"
| "includesStr (c # cs) sub = (startsWith (c # cs) sub \<or> includesStr cs sub)"

definition isWhiteSpace :: "char \<Rightarrow> bool" where
  "isWhiteSpace c = (c \<in> set [CHR '' '', TAB, NL, CHR 0x0B, CHR 0x0C, CHR 0x0D])"

text \<open>\<^verbatim>\<open>s.trim()\<close>.\<close>

definition trim :: "string \<Rightarrow> string" where
  "trim s = rev (dropWhile isWhiteSpace (rev (dropWhile isWhiteSpace s)))"

text \<open>Text made of ASCII characters only.\<close>

definition isAsciiText :: "string \<Rightarrow> bool" where
  "isAsciiText s = list_all (\<lambda>c. of_char c < (128::nat)) s"

text \<open>\<^verbatim>\<open>xs.slice(a, b)\<close> for indices that are not negative.\<close>

definition slice :: "'a list \<Rightarrow> nat \<Rightarrow> nat \<Rightarrow> 'a list" where
  "slice xs a b = take (b - a) (drop a xs)"

text \<open>
  \<^verbatim>\<open>xs.splice(at, count, item)\<close> with one inserted item: both the position and the
  count are clamped to the array, which \<open>take\<close> and \<open>drop\<close> do as well.
\<close>

definition splice :: "'a list \<Rightarrow> nat \<Rightarrow> nat \<Rightarrow> 'a \<Rightarrow> 'a list" where
  "splice xs at count item = take at xs @ [item] @ drop (at + count) xs"

section \<open>Conflict marker parser (resolve-conflicts.ts)\<close>

text \<open>
  A block as \<^verbatim>\<open>analyzeFileConflicts\<close> records it; \<open>startLine\<close> and \<open>endLine\<close> are the
  fields \<^verbatim>\<open>start\<close> and \<^verbatim>\<open>end\<close> of the source, the 0-based indices of the marker lines.
\<close>

record ConflictBlock =
  startLine :: nat
  endLine :: nat
  oursContent :: string
  theirsContent :: string

text \<open>
  The inner \<^verbatim>\<open>for (let j = i + 1; j < lines.length; j++)\<close> loop, run over the lines
  that follow the start marker; \<open>j\<close> is the index of the head of the remaining lines
  and \<open>None\<close> stands for \<^verbatim>\<open>-1\<close>. The result is \<^verbatim>\<open>(middle, end)\<close>.
\<close>

fun findMarkers :: "string list \<Rightarrow> nat \<Rightarrow> nat option \<Rightarrow> nat option \<times> nat option" where
  "findMarkers [] j middle = (middle, None)"
| "findMarkers (l # ls) j middle =
     (if startsWith l ''======='' \<and> middle = None then findMarkers ls (j + 1) (Some j)
      else if startsWith l ''>>>>>>>'' then (middle, Some j)
      else findMarkers ls (j + 1) middle)"

lemma findMarkers_end_ge: "findMarkers ls j m = (m', Some e) \<Longrightarrow> j \<le> e"
  by (induction ls j m rule: findMarkers.induct) (auto split: if_splits)

text \<open>The outer \<^verbatim>\<open>while (i < lines.length)\<close> loop.\<close>

function scanConflicts :: "string list \<Rightarrow> nat \<Rightarrow> ConflictBlock list \<Rightarrow> ConflictBlock list" where
  "scanConflicts lines i conflicts =
     (if i < length lines then
        (if startsWith (lines ! i) ''<<<<<<<'' then
           (case findMarkers (drop (i + 1) lines) (i + 1) None of
              (Some middle, Some e) \<Rightarrow>
                scanConflicts lines (e + 1)
                  (conflicts @
                    [\<lparr>startLine = i, endLine = e,
                      oursContent = join [NL] (slice lines (i + 1) middle),
                      theirsContent = join [NL] (slice lines (middle + 1) e)\<rparr>])
            | _ \<Rightarrow> scanConflicts lines (i + 1) conflicts)
         else scanConflicts lines (i + 1) conflicts)
      else conflicts)"
  by pat_completeness auto
termination
  by (relation "measure (\<lambda>(lines, i, conflicts). length lines - i)")
     (auto dest: findMarkers_end_ge findMarkers_end_ge [OF sym])

declare scanConflicts.simps [simp del]

section \<open>Numbers as text\<close>

definition isDigit :: "char \<Rightarrow> bool" where
  "isDigit c = (c \<in> set ''0123456789'')"

definition isHexDigit :: "char \<Rightarrow> bool" where
  "isHexDigit c = (c \<in> set ''0123456789abcdefABCDEF'')"

definition digitValue :: "char \<Rightarrow> nat" where
  "digitValue c =
     (if isDigit c then of_char c - 48
      else if c \<in> set ''abcdef'' then of_char c - 87
      else of_char c - 55)"

definition digitsValue :: "nat \<Rightarrow> string \<Rightarrow> nat" where
  "digitsValue radix ds = foldl (\<lambda>acc c. acc * radix + digitValue c) 0 ds"

text \<open>
  \<^verbatim>\<open>parseInt(s)\<close> with no radix argument: leading white space and a sign are skipped,
  a \<^verbatim>\<open>0x\<close> prefix selects base 16, and the longest run of digits is read. \<open>None\<close> is
  \<^verbatim>\<open>NaN\<close>. The host returns a double, which holds every integer up to \<open>2^53\<close> exactly and
  rounds beyond; the value is an unbounded integer here, so the function is that of the
  host for numerals up to \<open>2^53\<close>, and statements about counts are made within that bound.
\<close>

definition parseInt :: "string \<Rightarrow> int option" where
  "parseInt s =
     (let s0 = dropWhile isWhiteSpace s;
          neg = (s0 \<noteq> [] \<and> hd s0 = CHR ''-'');
          s1 = (if s0 \<noteq> [] \<and> (hd s0 = CHR ''-'' \<or> hd s0 = CHR ''+'') then tl s0 else s0);
          hex = (startsWith s1 ''0x'' \<or> startsWith s1 ''0X'');
          s2 = (if hex then drop 2 s1 else s1);
          z = takeWhile (if hex then isHexDigit else isDigit) s2
      in if z = [] then None
         else Some ((if neg then - 1 else 1) * int (digitsValue (if hex then 16 else 10) z)))"

text \<open>\<^verbatim>\<open>parseInt(n) || 0\<close>: both \<^verbatim>\<open>NaN\<close> and \<^verbatim>\<open>0\<close> are falsy.\<close>

definition parseIntOrZero :: "string \<Rightarrow> int" where
  "parseIntOrZero n = (case parseInt n of None \<Rightarrow> 0 | Some v \<Rightarrow> v)"

text \<open>The decimal text of a count, as template literals print it.\<close>

definition digitChar :: "nat \<Rightarrow> char" where
  "digitChar d = ''0123456789'' ! d"

fun showNat :: "nat \<Rightarrow> string" where
  "showNat n =
     (if n < 10 then [digitChar n]
      else showNat (n div 10) @ [digitChar (n mod 10)])"

declare showNat.simps [simp del]

section \<open>The command port\<close>

text \<open>
  \<^verbatim>\<open>execSync\<close> either returns the standard output of the command or throws; the thrown
  error carries the text \<^verbatim>\<open>error.stderr?.toString() || error.message\<close>.
\<close>

datatype ProcessOutcome = Returned string | Threw string

record CommandResult =
  stdout :: string
  success :: bool
  error :: "string option"

text \<open>What an invocation did, in order: the commands it ran and the files it wrote.\<close>

datatype Event = Exec string | WriteFile string string

text \<open>
  The world of one invocation: the working-tree files that \<^verbatim>\<open>readFileSync\<close> sees, the
  rest of the repository (index, refs, stash, operation markers), and the history of the
  invocation. A port gives the outcome of a command and its effect on files and repository.
\<close>

record 'g World =
  files :: "string \<rightharpoonup> string"
  repo :: 'g
  history :: "Event list"

type_synonym 'g Port =
  "string \<Rightarrow> (string \<rightharpoonup> string) \<times> 'g \<Rightarrow> ProcessOutcome \<times> (string \<rightharpoonup> string) \<times> 'g"

definition executeCommand :: "'g Port \<Rightarrow> string \<Rightarrow> 'g World \<Rightarrow> CommandResult \<times> 'g World" where
  "executeCommand port command w =
     (case port command (files w, repo w) of
        (outcome, fs, g) \<Rightarrow>
          ((case outcome of
              Returned out \<Rightarrow> \<lparr>stdout = trim out, success = True, error = None\<rparr>
            | Threw err \<Rightarrow> \<lparr>stdout = [], success = False, error = Some err\<rparr>),
           \<lparr>files = fs, repo = g, history = history w @ [Exec command]\<rparr>))"

text \<open>\<^verbatim>\<open>${result.error}\<close> inside a template literal.\<close>

definition errorText :: "CommandResult \<Rightarrow> string" where
  "errorText r = (case error r of None \<Rightarrow> ''undefined'' | Some e \<Rightarrow> e)"

definition writeFileSync :: "'g World \<Rightarrow> string \<Rightarrow> string \<Rightarrow> 'g World" where
  "writeFileSync w filePath content =
     w\<lparr>files := (files w)(filePath \<mapsto> content),
       history := history w @ [WriteFile filePath content]\<rparr>"

section \<open>Repository state (resolve-conflicts.ts)\<close>

record ConflictState =
  inMerge :: bool
  inRebase :: bool
  inCherryPick :: bool

definition getConflictState :: "'g Port \<Rightarrow> 'g World \<Rightarrow> ConflictState \<times> 'g World" where
  "getConflictState port w =
     (let (mergeHead, w1) = executeCommand port ''test -f .git/MERGE_HEAD'' w;
          (rebaseApply, w2) = executeCommand port ''test -d .git/rebase-apply'' w1;
          (rebaseMerge, w3) = executeCommand port ''test -d .git/rebase-merge'' w2;
          (cherryPickHead, w4) = executeCommand port ''test -f .git/CHERRY_PICK_HEAD'' w3
      in (\<lparr>inMerge = success mergeHead,
           inRebase = (success rebaseApply \<or> success rebaseMerge),
           inCherryPick = success cherryPickHead\<rparr>, w4))"

definition getConflictedFiles :: "'g Port \<Rightarrow> 'g World \<Rightarrow> string list \<times> 'g World" where
  "getConflictedFiles port w =
     (let (result, w1) = executeCommand port ''git diff --name-only --diff-filter=U'' w
      in (if success result \<and> trim (stdout result) \<noteq> []
          then filter (\<lambda>f. trim f \<noteq> []) (splitNL (stdout result))
          else [], w1))"

record FileConflictAnalysis =
  conflictBlocks :: "ConflictBlock list"
  totalConflicts :: nat

text \<open>A file that cannot be read makes \<^verbatim>\<open>readFileSync\<close> throw; the handler returns no blocks.\<close>

definition analyzeFileConflicts :: "(string \<rightharpoonup> string) \<Rightarrow> string \<Rightarrow> FileConflictAnalysis" where
  "analyzeFileConflicts fs filePath =
     (case fs filePath of
        None \<Rightarrow> \<lparr>conflictBlocks = [], totalConflicts = 0\<rparr>
      | Some content \<Rightarrow>
          (let conflicts = scanConflicts (splitNL content) 0 []
           in \<lparr>conflictBlocks = conflicts, totalConflicts = length conflicts\<rparr>))"

section \<open>Smart resolution heuristics (resolve-conflicts.ts)\<close>

text \<open>
  \<^verbatim>\<open>/^(import|require|from|#include)/m\<close>: with the \<^verbatim>\<open>m\<close> flag the anchor matches at the
  start of the text and after every line terminator.
\<close>

fun importPatternFrom :: "bool \<Rightarrow> string \<Rightarrow> bool" where
  "importPatternFrom atLineStart [] = False"
| "importPatternFrom atLineStart (c # cs) =
     ((atLineStart \<and>
        list_ex (startsWith (c # cs)) [''import'', ''require'', ''from'', ''#include''])
      \<or> importPatternFrom (c = NL \<or> c = CHR 0x0D) cs)"

definition importPattern :: "string \<Rightarrow> bool" where
  "importPattern s = importPatternFrom True s"

definition isImportBlock :: "string \<Rightarrow> string \<Rightarrow> bool" where
  "isImportBlock ours theirs = (importPattern ours \<and> importPattern theirs)"

text \<open>\<^verbatim>\<open>[...new Set(xs)]\<close>: the first occurrence of every element, in order.\<close>

definition uniqueInOrder :: "'a list \<Rightarrow> 'a list" where
  "uniqueInOrder xs = rev (remdups (rev xs))"

text \<open>The default \<^verbatim>\<open>sort()\<close> orders strings by their code units.\<close>

definition mergeImports :: "string \<Rightarrow> string \<Rightarrow> string" where
  "mergeImports ours theirs =
     (let oursLines = filter (\<lambda>l. trim l \<noteq> []) (splitNL ours);
          theirsLines = filter (\<lambda>l. trim l \<noteq> []) (splitNL theirs);
          allImports = oursLines @ theirsLines;
          uniqueImports = uniqueInOrder allImports
      in join [NL] (sort uniqueImports))"

definition isSimpleAddition :: "string \<Rightarrow> string \<Rightarrow> bool" where
  "isSimpleAddition ours theirs =
     (let oursLines = splitNL (trim ours);
          theirsLines = splitNL (trim theirs)
      in length oursLines \<le> 5 \<and> length theirsLines \<le> 5 \<and>
         \<not> includesStr ours ''delete'' \<and> \<not> includesStr theirs ''delete'' \<and>
         \<not> includesStr ours ''-'' \<and> \<not> includesStr theirs ''-'')"

text \<open>
  \<^verbatim>\<open>/version|VERSION|"v?\d+\.\d+\.\d+"/\<close>. The third alternative is matched piece by
  piece; each piece returns the rest of the text. A run of digits is always followed by a
  character that is no digit, so the greedy run is the only way to match.
\<close>

definition lit :: "char \<Rightarrow> string \<Rightarrow> string option" where
  "lit c s = (case s of [] \<Rightarrow> None | d # r \<Rightarrow> if d = c then Some r else None)"

definition optLit :: "char \<Rightarrow> string \<Rightarrow> string option" where
  "optLit c s = (case lit c s of None \<Rightarrow> Some s | Some r \<Rightarrow> Some r)"

definition digits1 :: "string \<Rightarrow> string option" where
  "digits1 s = (if takeWhile isDigit s = [] then None else Some (dropWhile isDigit s))"

definition semverLiteralAt :: "string \<Rightarrow> bool" where
  "semverLiteralAt s =
     (Option.bind (Option.bind (Option.bind (Option.bind (Option.bind (Option.bind (Option.bind
        (lit DQ s) (optLit CHR ''v'')) digits1) (lit CHR ''.'')) digits1) (lit CHR ''.''))
        digits1) (lit DQ) \<noteq> None)"

fun semverLiteralIn :: "string \<Rightarrow> bool" where
  "semverLiteralIn [] = False"
| "semverLiteralIn (c # cs) = (semverLiteralAt (c # cs) \<or> semverLiteralIn cs)"

definition versionPattern :: "string \<Rightarrow> bool" where
  "versionPattern s =
     (includesStr s ''version'' \<or> includesStr s ''VERSION'' \<or> semverLiteralIn s)"

definition isVersionConflict :: "string \<Rightarrow> string \<Rightarrow> bool" where
  "isVersionConflict ours theirs = (versionPattern ours \<and> versionPattern theirs)"

text \<open>
  The chain of conditions in the loop body of \<^verbatim>\<open>applySmartResolution\<close>: the pair
  \<^verbatim>\<open>(resolution, strategy)\<close>, both empty when no condition holds.
\<close>

definition smartResolution :: "string \<Rightarrow> string \<Rightarrow> string \<times> string" where
  "smartResolution ours theirs =
     (if trim ours = [] \<and> trim theirs \<noteq> [] then (theirs, ''theirs (ours empty)'')
      else if trim ours \<noteq> [] \<and> trim theirs = [] then (ours, ''ours (theirs empty)'')
      else if includesStr ours theirs then (ours, ''ours (includes theirs)'')
      else if includesStr theirs ours then (theirs, ''theirs (includes ours)'')
      else if isImportBlock ours theirs then (mergeImports ours theirs, ''merged imports'')
      else if isSimpleAddition ours theirs then (ours @ [NL] @ theirs, ''combined additions'')
      else if isVersionConflict ours theirs then (theirs, ''theirs (version update)'')
      else ([], []))"

record ResolveResult =
  resolved :: nat
  strategy :: "string list"

text \<open>
  One round of the loop of \<^verbatim>\<open>applySmartResolution\<close> on the state
  \<^verbatim>\<open>(lines, resolvedCount, strategies)\<close>. The count \<^verbatim>\<open>end - start + 1\<close> given to
  \<^verbatim>\<open>splice\<close> is clamped at zero there, as the subtraction of naturals is.
\<close>

definition resolveBlock ::
  "ConflictBlock \<Rightarrow> string list \<times> nat \<times> string list \<Rightarrow> string list \<times> nat \<times> string list" where
  "resolveBlock conflict st =
     (case st of (lines, resolvedCount, strategies) \<Rightarrow>
        (case smartResolution (oursContent conflict) (theirsContent conflict) of
           (resolution, strat) \<Rightarrow>
             if resolution \<noteq> [] then
               (splice lines (startLine conflict) (endLine conflict + 1 - startLine conflict) resolution,
                resolvedCount + 1,
                strategies @ [''Line '' @ showNat (startLine conflict + 1) @ '': '' @ strat])
             else (lines, resolvedCount, strategies)))"

text \<open>The text of the error that \<^verbatim>\<open>readFileSync\<close> throws for a missing file.\<close>

definition readErrorText :: "string \<Rightarrow> string" where
  "readErrorText filePath =
     ''Error: ENOENT: no such file or directory, open '' @ [CHR 0x27] @ filePath @ [CHR 0x27]"

text \<open>
  \<^verbatim>\<open>applySmartResolution\<close>: the blocks are visited from the last to the first
  (\<^verbatim>\<open>for (let i = conflicts.length - 1; i >= 0; i--)\<close>), and the file is written only when
  a block was resolved.
\<close>

definition applySmartResolution ::
  "string \<Rightarrow> ConflictBlock list \<Rightarrow> 'g World \<Rightarrow> ResolveResult \<times> 'g World" where
  "applySmartResolution filePath conflicts w =
     (case files w filePath of
        None \<Rightarrow>
          (\<lparr>resolved = 0,
            strategy = [''Error processing '' @ filePath @ '': '' @ readErrorText filePath]\<rparr>, w)
      | Some content \<Rightarrow>
          (case fold resolveBlock (rev conflicts) (splitNL content, 0, []) of
             (lines, resolvedCount, strategies) \<Rightarrow>
               (\<lparr>resolved = resolvedCount, strategy = strategies\<rparr>,
                if resolvedCount > 0 then writeFileSync w filePath (join [NL] lines) else w)))"

section \<open>Automatic resolution (resolve-conflicts.ts)\<close>

text \<open>
  The marks that open the messages, as the bytes that resolve-conflicts.ts holds for them
  in its string literals (the file stores each pictograph re-encoded, so these are not
  the bytes of the pictographs themselves).
\<close>

definition CHECK_MARK :: string where
  "CHECK_MARK = [CHR 0xC3, CHR 0xA2, CHR 0xC5, CHR 0x93, CHR 0xE2, CHR 0x80, CHR 0xA6]"

definition CLIPBOARD :: string where
  "CLIPBOARD =
     [CHR 0xC3, CHR 0xB0, CHR 0xC5, CHR 0xB8, CHR 0xE2, CHR 0x80, CHR 0x9C, CHR 0xE2, CHR 0x80, CHR 0xB9]"

definition MAGNIFIER :: string where
  "MAGNIFIER = [CHR 0xC3, CHR 0xB0, CHR 0xC5, CHR 0xB8, CHR 0xE2, CHR 0x80, CHR 0x9D]"

definition PUSHPIN :: string where
  "PUSHPIN = [CHR 0xC3, CHR 0xB0, CHR 0xC5, CHR 0xB8, CHR 0xE2, CHR 0x80, CHR 0x9C]"

definition BULLET :: string where
  "BULLET = [CHR 0xC3, CHR 0xA2, CHR 0xE2, CHR 0x82, CHR 0xAC, CHR 0xC2, CHR 0xA2]"

definition quoted :: "string \<Rightarrow> string" where
  "quoted s = [DQ] @ s @ [DQ]"

definition singleQuoted :: "string \<Rightarrow> string" where
  "singleQuoted s = [CHR 0x27] @ s @ [CHR 0x27]"

text \<open>The description that the preview of the smart strategy gives to one block.\<close>

definition previewStrategy :: "ConflictBlock \<Rightarrow> string" where
  "previewStrategy conflict =
     (if trim (oursContent conflict) = [] \<and> trim (theirsContent conflict) \<noteq> []
        then ''Would choose theirs (ours empty)''
      else if trim (oursContent conflict) \<noteq> [] \<and> trim (theirsContent conflict) = []
        then ''Would choose ours (theirs empty)''
      else if isImportBlock (oursContent conflict) (theirsContent conflict)
        then ''Would merge imports''
      else ''Would require manual resolution'')"

text \<open>
  The \<^verbatim>\<open>switch (strategy)\<close> in the loop of \<^verbatim>\<open>handleAutoResolve\<close>: the resolve result of
  one file.
\<close>

definition resolveFile ::
  "'g Port \<Rightarrow> string \<Rightarrow> bool \<Rightarrow> string \<Rightarrow> 'g World \<Rightarrow> ResolveResult \<times> 'g World" where
  "resolveFile port strat previewOnly file w =
     (if strat = ''ours'' then
        (if \<not> previewOnly then
           (case executeCommand port (''git checkout --ours '' @ quoted file) w of
              (result, w1) \<Rightarrow>
                (if success result
                 then \<lparr>resolved = 1, strategy = [''Chose ours for entire file'']\<rparr>
                 else \<lparr>resolved = 0, strategy = [''Failed: '' @ errorText result]\<rparr>, w1))
         else (\<lparr>resolved = 1, strategy = [''Would choose ours for entire file'']\<rparr>, w))
      else if strat = ''theirs'' then
        (if \<not> previewOnly then
           (case executeCommand port (''git checkout --theirs '' @ quoted file) w of
              (result, w1) \<Rightarrow>
                (if success result
                 then \<lparr>resolved = 1, strategy = [''Chose theirs for entire file'']\<rparr>
                 else \<lparr>resolved = 0, strategy = [''Failed: '' @ errorText result]\<rparr>, w1))
         else (\<lparr>resolved = 1, strategy = [''Would choose theirs for entire file'']\<rparr>, w))
      else if strat = ''smart'' then
        (let analysis = analyzeFileConflicts (files w) file
         in if \<not> previewOnly then applySmartResolution file (conflictBlocks analysis) w
            else (let strategies = map previewStrategy (conflictBlocks analysis)
                  in (\<lparr>resolved = length strategies, strategy = strategies\<rparr>, w)))
      else (\<lparr>resolved = 0, strategy = [''Unknown strategy: '' @ strat]\<rparr>, w))"

text \<open>
  One round of the loop over the conflicted files, on the state
  \<^verbatim>\<open>(totalResolved, resolutionDetails, steps, warnings)\<close> and the world.
\<close>

definition resolveAndStage ::
  "'g Port \<Rightarrow> string \<Rightarrow> bool \<Rightarrow> string \<Rightarrow>
   nat \<times> string list \<times> string list \<times> string list \<times> 'g World \<Rightarrow>
   nat \<times> string list \<times> string list \<times> string list \<times> 'g World" where
  "resolveAndStage port strat previewOnly file st =
     (case st of (totalResolved, resolutionDetails, steps, warnings, w) \<Rightarrow>
        (case resolveFile port strat previewOnly file w of
           (resolveResult, w1) \<Rightarrow>
             if resolved resolveResult > 0 then
               (let details = resolutionDetails @
                      [''**'' @ file @ '':**'' @ [NL] @
                       join [NL] (map (\<lambda>s. ''  '' @ BULLET @ '' '' @ s) (strategy resolveResult))]
                in if \<not> previewOnly then
                     (case executeCommand port (''git add '' @ quoted file) w1 of
                        (stageResult, w2) \<Rightarrow>
                          if success stageResult
                          then (totalResolved + 1, details,
                                steps @ [CHECK_MARK @ '' Resolved and staged '' @ file], warnings, w2)
                          else (totalResolved + 1, details, steps,
                                warnings @ [''Resolved '' @ file @ '' but failed to stage: '' @
                                            errorText stageResult], w2))
                   else (totalResolved + 1, details,
                         steps @ [CLIPBOARD @ '' Would resolve '' @ file], warnings, w1))
             else (totalResolved, resolutionDetails, steps,
                   warnings @ [''Failed to resolve '' @ file @ '': '' @
                               join '', '' (strategy resolveResult)], w1)))"

text \<open>
  The block under \<^verbatim>\<open>// Continue operation if requested and all conflicts resolved\<close>:
  the state is read and the first indicator that is set, in the order rebase, merge,
  cherry-pick, selects the command.
\<close>

definition continueOperationStep ::
  "'g Port \<Rightarrow> string list \<Rightarrow> string list \<Rightarrow> 'g World \<Rightarrow> string list \<times> string list \<times> 'g World" where
  "continueOperationStep port steps warnings w =
     (case getConflictState port w of
        (state, w1) \<Rightarrow>
          if inRebase state then
            (case executeCommand port ''git rebase --continue'' w1 of
               (continueResult, w2) \<Rightarrow>
                 if success continueResult
                 then (steps @ [CHECK_MARK @ '' Continued rebase operation''], warnings, w2)
                 else (steps, warnings @ [''Failed to continue rebase: '' @ errorText continueResult], w2))
          else if inMerge state then
            (case executeCommand port ''git commit --no-edit'' w1 of
               (commitResult, w2) \<Rightarrow>
                 if success commitResult
                 then (steps @ [CHECK_MARK @ '' Completed merge operation''], warnings, w2)
                 else (steps, warnings @ [''Failed to complete merge: '' @ errorText commitResult], w2))
          else if inCherryPick state then
            (case executeCommand port ''git cherry-pick --continue'' w1 of
               (continueResult, w2) \<Rightarrow>
                 if success continueResult
                 then (steps @ [CHECK_MARK @ '' Continued cherry-pick operation''], warnings, w2)
                 else (steps,
                       warnings @ [''Failed to continue cherry-pick: '' @ errorText continueResult], w2))
          else (steps, warnings, w1))"

text \<open>
  The response of \<^verbatim>\<open>handleAutoResolve\<close>. The text it returns is printed from these
  fields: preview flag, resolved files, conflicted files, strategy, resolution details,
  steps and warnings.
\<close>

datatype AutoResolveResponse =
    NoConflictedFiles
  | AutoResolved bool nat nat string "string list" "string list" "string list"

definition handleAutoResolve ::
  "'g Port \<Rightarrow> string \<Rightarrow> string list \<Rightarrow> bool \<Rightarrow> bool \<Rightarrow> bool \<Rightarrow> string list \<Rightarrow> string list \<Rightarrow>
   'g World \<Rightarrow> AutoResolveResponse \<times> 'g World" where
  "handleAutoResolve port strat targetFiles backupChanges continueOperation previewOnly
     steps warnings w =
     (case (if targetFiles \<noteq> [] then (targetFiles, w) else getConflictedFiles port w) of
        (conflictedFiles, w0) \<Rightarrow>
          if conflictedFiles = [] then (NoConflictedFiles, w0)
          else
            (let steps1 = steps @
                   [''Auto-resolving '' @ showNat (length conflictedFiles) @ '' files using '' @
                    singleQuoted strat @ '' strategy''];
                 steps2 = (if previewOnly
                           then steps1 @ [MAGNIFIER @ '' PREVIEW MODE - No changes will be made'']
                           else steps1)
             in case (if backupChanges \<and> \<not> previewOnly then
                        (case executeCommand port
                                (''git stash push -m '' @
                                 singleQuoted ''Backup before conflict resolution'') w0 of
                           (backupResult, w1) \<Rightarrow>
                             if success backupResult
                             then (steps2 @ [''Created backup of current changes''], warnings, w1)
                             else (steps2, warnings @ [''Failed to create backup''], w1))
                      else (steps2, warnings, w0)) of
                  (steps3, warnings3, w3) \<Rightarrow>
                    (case fold (resolveAndStage port strat previewOnly) conflictedFiles
                            (0, [], steps3, warnings3, w3) of
                       (totalResolved, resolutionDetails, steps4, warnings4, w4) \<Rightarrow>
                         (case (if continueOperation \<and> totalResolved = length conflictedFiles \<and>
                                   \<not> previewOnly
                                then continueOperationStep port steps4 warnings4 w4
                                else (steps4, warnings4, w4)) of
                            (steps5, warnings5, w5) \<Rightarrow>
                              (AutoResolved previewOnly totalResolved (length conflictedFiles) strat
                                 resolutionDetails steps5 warnings5, w5)))))"

text \<open>
  \<^verbatim>\<open>handleStatus\<close>: the line that names the operation in progress, and the number of
  conflict blocks of every conflicted file.
\<close>

record StatusReport =
  stateLine :: string
  conflictedCounts :: "(string \<times> nat) list"

definition handleStatus :: "'g Port \<Rightarrow> 'g World \<Rightarrow> StatusReport \<times> 'g World" where
  "handleStatus port w =
     (case getConflictState port w of
        (state, w1) \<Rightarrow>
          (case getConflictedFiles port w1 of
             (conflictedFiles, w2) \<Rightarrow>
               (\<lparr>stateLine =
                    (if inMerge state then PUSHPIN @ '' **State:** Currently in merge operation''
                     else if inRebase state then PUSHPIN @ '' **State:** Currently in rebase operation''
                     else if inCherryPick state
                       then PUSHPIN @ '' **State:** Currently in cherry-pick operation''
                     else PUSHPIN @ '' **State:** No active merge/rebase operation''),
                  conflictedCounts =
                    map (\<lambda>file. (file, totalConflicts (analyzeFileConflicts (files w2) file)))
                      conflictedFiles\<rparr>, w2)))"

section \<open>Branch synchronisation (sync-work.ts)\<close>

text \<open>\<^verbatim>\<open>executeGitCommand\<close> of sync-work.ts has the body of \<^verbatim>\<open>executeCommand\<close>.\<close>

definition executeGitCommand :: "'g Port \<Rightarrow> string \<Rightarrow> 'g World \<Rightarrow> CommandResult \<times> 'g World" where
  "executeGitCommand port command w = executeCommand port command w"






text \<open>
  The two counts; \<open>None\<close> is \<^verbatim>\<open>undefined\<close>, the value that the destructuring
  \<^verbatim>\<open>[behind, ahead] = xs\<close> gives to a position that \<open>xs\<close> does not have.
\<close>

record AheadBehind =
  ahead :: "int option"
  behind :: "int option"

definition elementAt :: "'a list \<Rightarrow> nat \<Rightarrow> 'a option" where
  "elementAt xs i = (if i < length xs then Some (xs ! i) else None)"

text \<open>What \<^verbatim>\<open>getAheadBehindInfo\<close> makes of the result of its command.\<close>

definition aheadBehindOf :: "CommandResult \<Rightarrow> AheadBehind" where
  "aheadBehindOf result =
     (if success result \<and> trim (stdout result) \<noteq> [] then
        (let counts = map parseIntOrZero (splitTAB (stdout result))
         in \<lparr>ahead = elementAt counts 1, behind = elementAt counts 0\<rparr>)
      else \<lparr>ahead = Some 0, behind = Some 0\<rparr>)"

definition getAheadBehindInfo ::
  "'g Port \<Rightarrow> string \<Rightarrow> string \<Rightarrow> 'g World \<Rightarrow> AheadBehind \<times> 'g World" where
  "getAheadBehindInfo port branch baseBranch w =
     (case executeGitCommand port
             (''git rev-list --left-right --count origin/'' @ baseBranch @ ''...'' @ branch) w of
        (result, w1) \<Rightarrow> (aheadBehindOf result, w1))"













section \<open>The classification as the specification words it\<close>

text \<open>
  The specification describes the classification as eight rules tried in order, the first
  rule that applies giving resolution and category. The notions the rules are worded in
  are defined here on their own, not through the functions of the code: an empty side,
  containment as a piece of text, lines that start with a keyword, the union of the lines
  of both sides, and a version-like token.
\<close>

text \<open>A side is empty when it holds nothing but white space.\<close>

definition isEmptySide :: "string \<Rightarrow> bool" where
  "isEmptySide s = (\<forall>c \<in> set s. isWhiteSpace c)"

text \<open>
  The lines of a text, for the question where a line starts: at the start of the text
  and after every line break, \<^verbatim>\<open>\n\<close> or \<^verbatim>\<open>\r\<close>.
\<close>

fun textLines :: "string \<Rightarrow> string list" where
  "textLines [] = [[]]"
| "textLines (c # cs) =
     (if c = NL \<or> c = CHR 0x0D then [] # textLines cs
      else (case textLines cs of [] \<Rightarrow> [[c]] | l # ls \<Rightarrow> (c # l) # ls))"

definition importKeywords :: "string list" where
  "importKeywords = [''import'', ''require'', ''from'', ''#include'']"

text \<open>A side looks like import statements when one of its lines starts with a keyword.\<close>

definition keywordAt :: "string \<Rightarrow> bool" where
  "keywordAt l = (\<exists>k \<in> set importKeywords. prefix k l)"

definition looksLikeImports :: "string \<Rightarrow> bool" where
  "looksLikeImports s = (\<exists>l \<in> set (textLines s). keywordAt l)"

text \<open>
  The union of the lines of both sides that are not blank: every such line once, in
  lexicographic order, joined by line breaks.
\<close>

definition unionOfLines :: "string \<Rightarrow> string \<Rightarrow> string" where
  "unionOfLines ours theirs =
     join [NL] (sorted_list_of_set
       ({l \<in> set (splitNL ours). \<not> isEmptySide l} \<union> {l \<in> set (splitNL theirs). \<not> isEmptySide l}))"

text \<open>
  A version-like token: the keyword in lower or upper case, or a semantic-version
  literal, three numerals separated by dots between double quotes, with an optional
  \<^verbatim>\<open>v\<close> before the first.
\<close>

definition isNumeral :: "string \<Rightarrow> bool" where
  "isNumeral d = (d \<noteq> [] \<and> (\<forall>c \<in> set d. isDigit c))"

definition semverLiteral :: "string \<Rightarrow> bool" where
  "semverLiteral x =
     (\<exists>a b c. isNumeral a \<and> isNumeral b \<and> isNumeral c \<and>
        (x = [DQ] @ a @ ''.'' @ b @ ''.'' @ c @ [DQ] \<or>
         x = [DQ] @ ''v'' @ a @ ''.'' @ b @ ''.'' @ c @ [DQ]))"

definition hasVersionToken :: "string \<Rightarrow> bool" where
  "hasVersionToken s =
     (sublist ''version'' s \<or> sublist ''VERSION'' s \<or> (\<exists>x. semverLiteral x \<and> sublist x s))"

text \<open>
  Rule 6 in the words of the specification: each side has at most five lines that are
  not blank, and no side contains a deletion indicator, the keyword \<^verbatim>\<open>delete\<close> or the
  character \<^verbatim>\<open>-\<close>.
\<close>

definition simpleAdditionsByNonBlankLines :: "string \<Rightarrow> string \<Rightarrow> bool" where
  "simpleAdditionsByNonBlankLines ours theirs =
     (length (filter (\<lambda>l. \<not> isEmptySide l) (splitNL ours)) \<le> 5 \<and>
      length (filter (\<lambda>l. \<not> isEmptySide l) (splitNL theirs)) \<le> 5 \<and>
      \<not> sublist ''delete'' ours \<and> \<not> sublist ''delete'' theirs \<and>
      CHR ''-'' \<notin> set ours \<and> CHR ''-'' \<notin> set theirs)"

text \<open>
  Rule 6 with the count that the code makes: the trimmed text of each side has at most
  five lines, the blank lines between them counted, which is at most four line breaks.
\<close>

definition simpleAdditionsByTrimmedLines :: "string \<Rightarrow> string \<Rightarrow> bool" where
  "simpleAdditionsByTrimmedLines ours theirs =
     (length (filter (\<lambda>c. c = NL) (trim ours)) \<le> 4 \<and>
      length (filter (\<lambda>c. c = NL) (trim theirs)) \<le> 4 \<and>
      \<not> sublist ''delete'' ours \<and> \<not> sublist ''delete'' theirs \<and>
      CHR ''-'' \<notin> set ours \<and> CHR ''-'' \<notin> set theirs)"

text \<open>
  A rule is a condition, a resolution and a category. The table lists rules 1 to 7 in
  the order of the specification, with the condition of rule 6 left open; rule 8, what
  holds when no rule applies, is the second argument of \<open>firstMatchingRule\<close>.
\<close>

type_synonym Rule = "(string \<Rightarrow> string \<Rightarrow> bool) \<times> (string \<Rightarrow> string \<Rightarrow> string) \<times> string"

definition classificationRules :: "(string \<Rightarrow> string \<Rightarrow> bool) \<Rightarrow> Rule list" where
  "classificationRules simpleAdditions =
     [(\<lambda>ours theirs. isEmptySide ours \<and> \<not> isEmptySide theirs, \<lambda>ours theirs. theirs,
         ''theirs (ours empty)''),
      (\<lambda>ours theirs. \<not> isEmptySide ours \<and> isEmptySide theirs, \<lambda>ours theirs. ours,
         ''ours (theirs empty)''),
      (\<lambda>ours theirs. sublist theirs ours, \<lambda>ours theirs. ours, ''ours (includes theirs)''),
      (\<lambda>ours theirs. sublist ours theirs, \<lambda>ours theirs. theirs, ''theirs (includes ours)''),
      (\<lambda>ours theirs. looksLikeImports ours \<and> looksLikeImports theirs, unionOfLines,
         ''merged imports''),
      (simpleAdditions, \<lambda>ours theirs. ours @ [NL] @ theirs, ''combined additions''),
      (\<lambda>ours theirs. hasVersionToken ours \<and> hasVersionToken theirs, \<lambda>ours theirs. theirs,
         ''theirs (version update)'')]"

fun firstMatchingRule :: "Rule list \<Rightarrow> string \<times> string \<Rightarrow> string \<Rightarrow> string \<Rightarrow> string \<times> string" where
  "firstMatchingRule [] otherwise ours theirs = otherwise"
| "firstMatchingRule ((applies, resolution, category) # rules) otherwise ours theirs =
     (if applies ours theirs then (resolution ours theirs, category)
      else firstMatchingRule rules otherwise ours theirs)"

section \<open>Files as sequences of plain lines and conflict regions\<close>

text \<open>
  To speak about a file with \<open>N\<close> conflict regions, the lines of the file are described
  as a sequence of segments: a plain line, or a region made of a start marker line, the
  lines of the ours side, a middle marker line, the lines of the theirs side and an end
  marker line.
\<close>

datatype Segment =
    Plain string
  | Region string "string list" string "string list" string

fun segmentLines :: "Segment \<Rightarrow> string list" where
  "segmentLines (Plain l) = [l]"
| "segmentLines (Region s os m ts e) = s # os @ m # ts @ [e]"

definition renderSegments :: "Segment list \<Rightarrow> string list" where
  "renderSegments segs = concat (map segmentLines segs)"

text \<open>
  A plain line does not start with the start marker. In a well-formed region the first
  middle marker after the start marker is the region's own and the first end marker
  after the start marker is the region's own: the ours side has no line starting with
  the middle or the end marker, and the theirs side has no line starting with the end
  marker.
\<close>

fun wellFormedSegment :: "Segment \<Rightarrow> bool" where
  "wellFormedSegment (Plain l) = (\<not> startsWith l ''<<<<<<<'')"
| "wellFormedSegment (Region s os m ts e) =
     (startsWith s ''<<<<<<<'' \<and>
      (\<forall>l \<in> set os. \<not> startsWith l ''======='' \<and> \<not> startsWith l ''>>>>>>>'') \<and>
      startsWith m ''======='' \<and>
      (\<forall>l \<in> set ts. \<not> startsWith l ''>>>>>>>'') \<and>
      startsWith e ''>>>>>>>'')"

text \<open>The blocks of a sequence of segments whose first line has the index \<open>k\<close>.\<close>

fun expectedBlocks :: "nat \<Rightarrow> Segment list \<Rightarrow> ConflictBlock list" where
  "expectedBlocks k [] = []"
| "expectedBlocks k (Plain l # segs) = expectedBlocks (k + 1) segs"
| "expectedBlocks k (Region s os m ts e # segs) =
     \<lparr>startLine = k, endLine = k + length os + length ts + 2,
      oursContent = join [NL] os, theirsContent = join [NL] ts\<rparr> #
     expectedBlocks (k + length os + length ts + 3) segs"

definition isMarkerLine :: "string \<Rightarrow> bool" where
  "isMarkerLine l =
     (startsWith l ''<<<<<<<'' \<or> startsWith l ''======='' \<or> startsWith l ''>>>>>>>'')"

text \<open>
  A clean segment has marker lines only where a region needs them, and the block of a
  clean region is one that the smart resolution resolves.
\<close>

fun cleanSegment :: "Segment \<Rightarrow> bool" where
  "cleanSegment (Plain l) = (\<not> isMarkerLine l)"
| "cleanSegment (Region s os m ts e) =
     (startsWith s ''<<<<<<<'' \<and> (\<forall>l \<in> set os. \<not> isMarkerLine l) \<and>
      startsWith m ''======='' \<and> (\<forall>l \<in> set ts. \<not> isMarkerLine l) \<and>
      startsWith e ''>>>>>>>'' \<and>
      fst (smartResolution (join [NL] os) (join [NL] ts)) \<noteq> [])"

text \<open>The lines of the file after every region has been replaced by its resolution.\<close>

fun resolvedLines :: "Segment list \<Rightarrow> string list" where
  "resolvedLines [] = []"
| "resolvedLines (Plain l # segs) = l # resolvedLines segs"
| "resolvedLines (Region s os m ts e # segs) =
     splitNL (fst (smartResolution (join [NL] os) (join [NL] ts))) @ resolvedLines segs"

fun isRegion :: "Segment \<Rightarrow> bool" where
  "isRegion (Plain l) = False"
| "isRegion (Region s os m ts e) = True"

text \<open>
  What every parsed block has in the lines of its file: a start marker line at
  \<open>startLine\<close>, an end marker line at \<open>endLine\<close> and a middle marker line between them.
\<close>

definition blockInFile :: "string list \<Rightarrow> ConflictBlock \<Rightarrow> bool" where
  "blockInFile ls b =
     (startLine b < endLine b \<and> endLine b < length ls \<and>
      startsWith (ls ! startLine b) ''<<<<<<<'' \<and>
      (\<exists>m. startLine b < m \<and> m < endLine b \<and> startsWith (ls ! m) ''======='') \<and>
      startsWith (ls ! endLine b) ''>>>>>>>'')"

text \<open>
  The array of lines after the loop of \<^verbatim>\<open>applySmartResolution\<close>: every region has become
  one element, its resolution, which may hold several lines.
\<close>

fun splicedLines :: "Segment list \<Rightarrow> string list" where
  "splicedLines [] = []"
| "splicedLines (Plain l # segs) = l # splicedLines segs"
| "splicedLines (Region s os m ts e # segs) =
     fst (smartResolution (join [NL] os) (join [NL] ts)) # splicedLines segs"

section \<open>Verified properties\<close>

subsection \<open>Auto-resolution in the sync executor\<close>





subsection \<open>Operation state and continuation\<close>

lemma history_executeCommand:
  "history (snd (executeCommand port command w)) = history w @ [Exec command]"
  by (simp add: executeCommand_def split: prod.splits)

lemma executeCommand_history:
  "executeCommand port command w = (r, w1) \<Longrightarrow> history w1 = history w @ [Exec command]"
  using history_executeCommand [of port command w] by simp

lemma stateLine_handleStatus:
  "stateLine (fst (handleStatus port w)) =
     (let state = fst (getConflictState port w) in
      if inMerge state then PUSHPIN @ '' **State:** Currently in merge operation''
      else if inRebase state then PUSHPIN @ '' **State:** Currently in rebase operation''
      else if inCherryPick state then PUSHPIN @ '' **State:** Currently in cherry-pick operation''
      else PUSHPIN @ '' **State:** No active merge/rebase operation'')"
  by (simp add: handleStatus_def Let_def split: prod.splits)

lemma history_continueOperationStep:
  "history (snd (snd (continueOperationStep port steps warnings w))) =
     (let state = fst (getConflictState port w) in
      history (snd (getConflictState port w)) @
      (if inRebase state then [Exec ''git rebase --continue'']
       else if inMerge state then [Exec ''git commit --no-edit'']
       else if inCherryPick state then [Exec ''git cherry-pick --continue'']
       else []))"
proof -
  obtain state w1 where s: "getConflictState port w = (state, w1)"
    by (cases "getConflictState port w")
  show ?thesis
    by (auto simp: continueOperationStep_def s Let_def split: prod.splits
        dest: executeCommand_history)
qed

text \<open>
  \<^bold>\<open>C6\<close>, as the code has it. When several indicators are present at once, the
  status report names the operation in the order merge, rebase, cherry-pick, while the
  continuation command is chosen in the order rebase, merge, cherry-pick: after the four
  state checks, \<^verbatim>\<open>git rebase --continue\<close> runs whenever a rebase directory is present,
  the merge commit only when none is, and the cherry-pick continuation only when neither
  a rebase directory nor a merge head is.
\<close>

theorem continuation_precedence:
  "(let state = fst (getConflictState port w) in
    stateLine (fst (handleStatus port w)) =
      (if inMerge state then PUSHPIN @ '' **State:** Currently in merge operation''
       else if inRebase state then PUSHPIN @ '' **State:** Currently in rebase operation''
       else if inCherryPick state then PUSHPIN @ '' **State:** Currently in cherry-pick operation''
       else PUSHPIN @ '' **State:** No active merge/rebase operation'') \<and>
    history (snd (snd (continueOperationStep port steps warnings w))) =
      history (snd (getConflictState port w)) @
      (if inRebase state then [Exec ''git rebase --continue'']
       else if inMerge state then [Exec ''git commit --no-edit'']
       else if inCherryPick state then [Exec ''git cherry-pick --continue'']
       else []))"
  using stateLine_handleStatus [of port w] history_continueOperationStep [of port steps warnings w]
  by (simp add: Let_def)

text \<open>
  Against \<^bold>\<open>C6\<close> as stated: in a repository where every indicator is present, an
  automatic resolution of \<^verbatim>\<open>a.txt\<close> with the strategy \<^verbatim>\<open>ours\<close> continues with
  \<^verbatim>\<open>git rebase --continue\<close>; the merge commit is not run.
\<close>

theorem continuation_counterexample:
  "fst (getConflictState (\<lambda>command s. (Returned [], s))
      \<lparr>files = Map.empty, repo = (), history = []\<rparr>) =
     \<lparr>inMerge = True, inRebase = True, inCherryPick = True\<rparr> \<and>
   history (snd (handleAutoResolve (\<lambda>command s. (Returned [], s)) ''ours'' [''a.txt'']
      False True False [] [] \<lparr>files = Map.empty, repo = (), history = []\<rparr>)) =
     [Exec (''git checkout --ours '' @ quoted ''a.txt''), Exec (''git add '' @ quoted ''a.txt''),
      Exec ''test -f .git/MERGE_HEAD'', Exec ''test -d .git/rebase-apply'',
      Exec ''test -d .git/rebase-merge'', Exec ''test -f .git/CHERRY_PICK_HEAD'',
      Exec ''git rebase --continue'']"
  by (simp add: handleAutoResolve_def resolveAndStage_def resolveFile_def continueOperationStep_def
      getConflictState_def executeCommand_def Let_def)

subsection \<open>Ahead and behind counts\<close>

lemma digit_cases: "d < 10 \<Longrightarrow> (d::nat) \<in> {0, 1, 2, 3, 4, 5, 6, 7, 8, 9}"
  by auto

lemma isDigit_char_of: "d < 10 \<Longrightarrow> isDigit (digitChar d)"
  using digit_cases [of d] by (auto simp: isDigit_def digitChar_def)

lemma digitValue_char_of: "d < 10 \<Longrightarrow> digitValue (digitChar d) = d"
  using digit_cases [of d] by (auto simp: isDigit_def digitValue_def digitChar_def)

lemma isDigit_not_white: "isDigit c \<Longrightarrow> \<not> isWhiteSpace c"
  by (auto simp: isDigit_def isWhiteSpace_def)

lemma isDigit_chars: "isDigit c \<Longrightarrow> c \<noteq> TAB \<and> c \<noteq> NL \<and> c \<noteq> CHR ''-'' \<and> c \<noteq> CHR ''+'' \<and> c \<noteq> CHR ''x'' \<and> c \<noteq> CHR ''X''"
  by (auto simp: isDigit_def)

lemma showNat_digits: "showNat n \<noteq> [] \<and> (\<forall>c \<in> set (showNat n). isDigit c)"
proof (induction n rule: showNat.induct)
  case (1 n)
  show ?case
  proof (cases "n < 10")
    case True
    then show ?thesis by (simp add: showNat.simps [of n] isDigit_char_of)
  next
    case False
    with 1 show ?thesis by (simp add: showNat.simps [of n] isDigit_char_of)
  qed
qed

lemma digitsValue_snoc: "digitsValue r (ds @ [c]) = digitsValue r ds * r + digitValue c"
  by (simp add: digitsValue_def)

lemma digitsValue_showNat: "digitsValue 10 (showNat n) = n"
proof (induction n rule: showNat.induct)
  case (1 n)
  show ?case
  proof (cases "n < 10")
    case True
    then show ?thesis by (simp add: showNat.simps [of n] digitsValue_def digitValue_char_of)
  next
    case False
    with 1 show ?thesis
      by (simp add: showNat.simps [of n] digitsValue_snoc digitValue_char_of)
  qed
qed

lemma parseInt_digits:
  assumes "ds \<noteq> []" "\<forall>c \<in> set ds. isDigit c"
  shows "parseInt ds = Some (int (digitsValue 10 ds))"
proof -
  obtain d rest where ds: "ds = d # rest" using assms(1) by (cases ds) auto
  have d: "isDigit d" using assms(2) ds by simp
  have 1: "dropWhile isWhiteSpace ds = ds" using d ds isDigit_not_white by simp
  have 2: "\<not> startsWith ds ''0x''" "\<not> startsWith ds ''0X''"
    using assms(2) ds isDigit_chars by (cases rest; auto simp: startsWith_def)+
  have 3: "takeWhile isDigit ds = ds" using assms(2) by (simp add: takeWhile_eq_all_conv)
  have 4: "hd ds \<noteq> CHR ''-''" "hd ds \<noteq> CHR ''+''" using d ds isDigit_chars by auto
  show ?thesis
    unfolding parseInt_def Let_def 1 using assms(1) 2 4 by (simp add: 3)
qed

lemma parseInt_showNat: "parseInt (showNat n) = Some (int n)"
  using parseInt_digits [of "showNat n"] showNat_digits [of n] by (simp add: digitsValue_showNat)

lemma splitTAB_nonempty: "splitTAB s \<noteq> []"
  by (induction s) (auto split: list.splits)

lemma splitTAB_no_tab: "TAB \<notin> set s \<Longrightarrow> splitTAB s = [s]"
  by (induction s) auto

lemma splitTAB_append: "TAB \<notin> set a \<Longrightarrow> splitTAB (a @ TAB # b) = a # splitTAB b"
  by (induction a) auto

lemma trim_id:
  assumes "s \<noteq> []" "\<not> isWhiteSpace (hd s)" "\<not> isWhiteSpace (last s)"
  shows "trim s = s"
proof -
  have "dropWhile isWhiteSpace s = s" using assms by (cases s) auto
  moreover have "dropWhile isWhiteSpace (rev s) = rev s"
    using assms by (cases "rev s") (auto simp: hd_rev)
  ultimately show ?thesis by (simp add: trim_def)
qed


lemma all_dropWhile: "(\<forall>x \<in> set (dropWhile P xs). P x) \<longleftrightarrow> (\<forall>x \<in> set xs. P x)"
  by (induction xs) auto

lemma trim_eq_Nil: "trim s = [] \<longleftrightarrow> (\<forall>x \<in> set s. isWhiteSpace x)"
  by (simp add: trim_def all_dropWhile)

lemma trim_snoc_white:
  assumes "isWhiteSpace c"
  shows "trim (s @ [c]) = trim s"
proof (cases "\<forall>x \<in> set s. isWhiteSpace x")
  case True
  then have "trim (s @ [c]) = []" "trim s = []" using assms by (simp_all add: trim_eq_Nil)
  then show ?thesis by simp
next
  case False
  then have "dropWhile isWhiteSpace (s @ [c]) = dropWhile isWhiteSpace s @ [c]"
    by (auto simp: dropWhile_append)
  then show ?thesis using assms by (simp add: trim_def)
qed

lemma trim_append_white:
  "\<forall>c \<in> set t. isWhiteSpace c \<Longrightarrow> trim (s @ t) = trim s"
proof (induction t rule: rev_induct)
  case Nil
  then show ?case by simp
next
  case (snoc c t)
  have "trim ((s @ t) @ [c]) = trim (s @ t)"
    using snoc.prems by (intro trim_snoc_white) simp
  with snoc show ?case by simp
qed

lemma dropWhile_hd: "dropWhile P xs \<noteq> [] \<Longrightarrow> \<not> P (hd (dropWhile P xs))"
  by (metis hd_dropWhile)

lemma dropWhile_last: "dropWhile P xs \<noteq> [] \<Longrightarrow> last (dropWhile P xs) = last xs"
  by (induction xs) (auto split: if_splits)

lemma trim_trim: "trim (trim s) = trim s"
proof (cases "trim s = []")
  case True
  then have "trim (trim s) = []" unfolding trim_eq_Nil [of "trim s"] by simp
  with True show ?thesis by simp
next
  case False
  let ?u = "dropWhile isWhiteSpace s"
  let ?r = "dropWhile isWhiteSpace (rev ?u)"
  have t: "trim s = rev ?r" by (simp add: trim_def)
  have r: "?r \<noteq> []" using False unfolding t by blast
  then have u: "?u \<noteq> []" by fastforce
  have "last ?r = last (rev ?u)" using r by (rule dropWhile_last)
  then have "hd (trim s) = hd ?u" using r u unfolding t by (simp only: hd_rev last_rev rev_rev_ident)
  then have 1: "\<not> isWhiteSpace (hd (trim s))" using dropWhile_hd [OF u] by simp
  have "last (trim s) = hd ?r" using r unfolding t by (simp only: last_rev)
  then have 2: "\<not> isWhiteSpace (last (trim s))" using dropWhile_hd [OF r] by simp
  show ?thesis using False 1 2 by (rule trim_id)
qed

lemma showNat_ends:
  "\<not> isWhiteSpace (hd (showNat n))" "\<not> isWhiteSpace (last (showNat n))" "TAB \<notin> set (showNat n)"
  using showNat_digits [of n] isDigit_not_white isDigit_chars
  by (auto simp: hd_in_set)

lemma aheadBehindOf_wellformed:
  assumes "\<forall>c \<in> set t. isWhiteSpace c"
  shows "aheadBehindOf \<lparr>stdout = trim (showNat b @ [TAB] @ showNat a @ t), success = True, error = e\<rparr> =
         \<lparr>ahead = Some (int a), behind = Some (int b)\<rparr>"
proof -
  let ?s = "showNat b @ [TAB] @ showNat a"
  have ne: "showNat b \<noteq> []" "showNat a \<noteq> []" using showNat_digits by auto
  have "trim (?s @ t) = trim ?s" using trim_append_white [OF assms, of ?s] by simp
  also have "trim ?s = ?s"
    using ne showNat_ends [of a] showNat_ends [of b] by (intro trim_id) auto
  finally have t: "trim (showNat b @ [TAB] @ showNat a @ t) = ?s" by simp
  have sp: "splitTAB (showNat b @ TAB # showNat a) = [showNat b, showNat a]"
    using showNat_ends(3) by (simp add: splitTAB_append splitTAB_no_tab)
  have "trim ?s \<noteq> []" using \<open>trim ?s = ?s\<close> by simp
  then show ?thesis
    unfolding t
    by (simp add: aheadBehindOf_def sp elementAt_def parseIntOrZero_def parseInt_showNat)
qed

lemma getAheadBehindInfo_eq:
  "fst (getAheadBehindInfo port branch baseBranch w) =
   aheadBehindOf (case fst (port (''git rev-list --left-right --count origin/'' @ baseBranch @ ''...'' @ branch)
                        (files w, repo w)) of
                    Returned out \<Rightarrow> \<lparr>stdout = trim out, success = True, error = None\<rparr>
                  | Threw err \<Rightarrow> \<lparr>stdout = [], success = False, error = Some err\<rparr>)"
  by (simp add: getAheadBehindInfo_def executeGitCommand_def executeCommand_def split: prod.splits)


lemma parseIntOrZero_showNat: "parseIntOrZero (showNat n) = int n"
  by (simp add: parseIntOrZero_def parseInt_showNat)

text \<open>
  \<^bold>\<open>C1\<close>, as the code has it. The command prints the two counts in the order behind,
  ahead, separated by a tab. Output of that form yields the actual counts: with \<open>b = 0\<close>
  and \<open>a = 2\<close> the result is two ahead and none behind. A command that fails, and an
  output that is blank, yield zero for both counts. In an output of two columns each
  column is read on its own: a decimal count is reported as that count, and a column from
  which no number can be read is reported as zero, so \<^verbatim>\<open>5<TAB>x\<close> gives five behind and
  zero ahead. An output of a single column leaves \<open>ahead\<close> undefined and gives \<open>behind\<close>
  in the same way. So a reported zero does not tell "no commits" from "could not
  determine". Counts are taken up to \<open>2^53\<close>, where the numbers of the host are exact, and
  the clauses that read a column of arbitrary text are stated for ASCII output.
\<close>

theorem aheadBehind_reporting:
  "(let outcome = fst (port (''git rev-list --left-right --count origin/'' @ baseBranch @ ''...'' @ branch)
                        (files w, repo w));
        info = fst (getAheadBehindInfo port branch baseBranch w)
    in ((\<forall>c \<in> set t. isWhiteSpace c) \<and> a \<le> 2 ^ 53 \<and> b \<le> 2 ^ 53 \<and>
        outcome = Returned (showNat b @ [TAB] @ showNat a @ t) \<longrightarrow>
          info = \<lparr>ahead = Some (int a), behind = Some (int b)\<rparr>) \<and>
       (outcome = Threw e \<longrightarrow> info = \<lparr>ahead = Some 0, behind = Some 0\<rparr>) \<and>
       (outcome = Returned out \<and> trim out = [] \<longrightarrow> info = \<lparr>ahead = Some 0, behind = Some 0\<rparr>) \<and>
       (outcome = Returned out \<and> isAsciiText out \<and> trim out = c1 @ [TAB] @ c2 \<and>
        TAB \<notin> set c1 \<and> TAB \<notin> set c2 \<longrightarrow>
          (parseInt c1 = None \<longrightarrow> behind info = Some 0) \<and>
          (c1 = showNat b \<and> b \<le> 2 ^ 53 \<longrightarrow> behind info = Some (int b)) \<and>
          (parseInt c2 = None \<longrightarrow> ahead info = Some 0) \<and>
          (c2 = showNat a \<and> a \<le> 2 ^ 53 \<longrightarrow> ahead info = Some (int a))) \<and>
       (outcome = Returned out \<and> isAsciiText out \<and> trim out = c1 \<and> c1 \<noteq> [] \<and> TAB \<notin> set c1 \<longrightarrow>
          ahead info = None \<and>
          (parseInt c1 = None \<longrightarrow> behind info = Some 0) \<and>
          (c1 = showNat b \<and> b \<le> 2 ^ 53 \<longrightarrow> behind info = Some (int b))))"
proof -
  let ?o = "fst (port (''git rev-list --left-right --count origin/'' @ baseBranch @ ''...'' @ branch)
                        (files w, repo w))"
  let ?i = "fst (getAheadBehindInfo port branch baseBranch w)"
  have A: "?i = \<lparr>ahead = Some (int a), behind = Some (int b)\<rparr>"
    if "\<forall>c \<in> set t. isWhiteSpace c" "?o = Returned (showNat b @ [TAB] @ showNat a @ t)"
    using that aheadBehindOf_wellformed [of t b a None] by (simp add: getAheadBehindInfo_eq)
  have B: "?i = \<lparr>ahead = Some 0, behind = Some 0\<rparr>" if "?o = Threw e"
    using that by (simp add: getAheadBehindInfo_eq aheadBehindOf_def)
  have C: "?i = \<lparr>ahead = Some 0, behind = Some 0\<rparr>" if "?o = Returned out" "trim out = []"
    using that trim_trim [of out] by (simp add: getAheadBehindInfo_eq aheadBehindOf_def)
  have D: "?i = \<lparr>ahead = Some (parseIntOrZero c2), behind = Some (parseIntOrZero c1)\<rparr>"
    if "?o = Returned out" "trim out = c1 @ [TAB] @ c2" "TAB \<notin> set c1" "TAB \<notin> set c2"
    using that trim_trim [of out]
    by (simp add: getAheadBehindInfo_eq aheadBehindOf_def splitTAB_append splitTAB_no_tab
        elementAt_def)
  have E: "?i = \<lparr>ahead = None, behind = Some (parseIntOrZero c1)\<rparr>"
    if "?o = Returned out" "trim out = c1" "c1 \<noteq> []" "TAB \<notin> set c1"
    using that trim_trim [of out]
    by (simp add: getAheadBehindInfo_eq aheadBehindOf_def splitTAB_no_tab elementAt_def)
  have N: "parseIntOrZero c = 0" if "parseInt c = None" for c
    using that by (simp add: parseIntOrZero_def)
  have D': "(parseInt c1 = None \<longrightarrow> behind ?i = Some 0) \<and>
          (c1 = showNat b \<and> b \<le> 2 ^ 53 \<longrightarrow> behind ?i = Some (int b)) \<and>
          (parseInt c2 = None \<longrightarrow> ahead ?i = Some 0) \<and>
          (c2 = showNat a \<and> a \<le> 2 ^ 53 \<longrightarrow> ahead ?i = Some (int a))"
    if "?o = Returned out" "trim out = c1 @ [TAB] @ c2" "TAB \<notin> set c1" "TAB \<notin> set c2"
    unfolding D [OF that] using N [of c1] N [of c2] by (simp add: parseIntOrZero_showNat)
  have E': "ahead ?i = None \<and>
          (parseInt c1 = None \<longrightarrow> behind ?i = Some 0) \<and>
          (c1 = showNat b \<and> b \<le> 2 ^ 53 \<longrightarrow> behind ?i = Some (int b))"
    if "?o = Returned out" "trim out = c1" "c1 \<noteq> []" "TAB \<notin> set c1"
    unfolding E [OF that] using N [of c1] by (simp add: parseIntOrZero_showNat)
  show ?thesis unfolding Let_def using A B C D' E' by blast
qed

text \<open>
  The theorem at concrete outputs, one for each of its five cases; the output of two
  columns has a count in the first and no number in the second.
\<close>

theorem aheadBehind_reporting_witness:
  "fst (getAheadBehindInfo (\<lambda>command s. (Returned (''0'' @ [TAB] @ ''2'' @ [NL]), s)) ''feature'' ''main''
          \<lparr>files = Map.empty, repo = (), history = []\<rparr>) = \<lparr>ahead = Some 2, behind = Some 0\<rparr> \<and>
   fst (getAheadBehindInfo (\<lambda>command s. (Threw ''fatal: bad revision'', s)) ''feature'' ''main''
          \<lparr>files = Map.empty, repo = (), history = []\<rparr>) = \<lparr>ahead = Some 0, behind = Some 0\<rparr> \<and>
   fst (getAheadBehindInfo (\<lambda>command s. (Returned [NL], s)) ''feature'' ''main''
          \<lparr>files = Map.empty, repo = (), history = []\<rparr>) = \<lparr>ahead = Some 0, behind = Some 0\<rparr> \<and>
   behind (fst (getAheadBehindInfo (\<lambda>command s. (Returned (''5'' @ [TAB] @ ''x''), s)) ''feature'' ''main''
          \<lparr>files = Map.empty, repo = (), history = []\<rparr>)) = Some 5 \<and>
   ahead (fst (getAheadBehindInfo (\<lambda>command s. (Returned (''5'' @ [TAB] @ ''x''), s)) ''feature'' ''main''
          \<lparr>files = Map.empty, repo = (), history = []\<rparr>)) = Some 0 \<and>
   ahead (fst (getAheadBehindInfo (\<lambda>command s. (Returned ''invalid'', s)) ''feature'' ''main''
          \<lparr>files = Map.empty, repo = (), history = []\<rparr>)) = None \<and>
   behind (fst (getAheadBehindInfo (\<lambda>command s. (Returned ''invalid'', s)) ''feature'' ''main''
          \<lparr>files = Map.empty, repo = (), history = []\<rparr>)) = Some 0"
proof -
  let ?w = "\<lparr>files = Map.empty, repo = (), history = []\<rparr> :: unit World"
  have 1: "fst (getAheadBehindInfo (\<lambda>command s. (Returned (''0'' @ [TAB] @ ''2'' @ [NL]), s)) ''feature''
             ''main'' ?w) = \<lparr>ahead = Some 2, behind = Some 0\<rparr>"
    using aheadBehind_reporting [where port = "\<lambda>command s. (Returned (''0'' @ [TAB] @ ''2'' @ [NL]), s)"
        and w = ?w and t = "[NL]" and b = 0 and a = 2 and branch = "''feature''"
        and baseBranch = "''main''"]
    by (simp add: Let_def showNat.simps digitChar_def isWhiteSpace_def)
  have 2: "fst (getAheadBehindInfo (\<lambda>command s. (Threw ''fatal: bad revision'', s)) ''feature''
             ''main'' ?w) = \<lparr>ahead = Some 0, behind = Some 0\<rparr>"
    using aheadBehind_reporting [where port = "\<lambda>command s. (Threw ''fatal: bad revision'', s)"
        and w = ?w and e = "''fatal: bad revision''" and branch = "''feature''"
        and baseBranch = "''main''"]
    by (simp add: Let_def)
  have 3: "fst (getAheadBehindInfo (\<lambda>command s. (Returned [NL], s)) ''feature''
             ''main'' ?w) = \<lparr>ahead = Some 0, behind = Some 0\<rparr>"
    using aheadBehind_reporting [where port = "\<lambda>command s. (Returned [NL], s)"
        and w = ?w and out = "[NL]" and branch = "''feature''" and baseBranch = "''main''"]
    by (simp add: Let_def trim_def isWhiteSpace_def)
  have 4: "behind (fst (getAheadBehindInfo (\<lambda>command s. (Returned (''5'' @ [TAB] @ ''x''), s)) ''feature''
             ''main'' ?w)) = Some 5 \<and>
           ahead (fst (getAheadBehindInfo (\<lambda>command s. (Returned (''5'' @ [TAB] @ ''x''), s)) ''feature''
             ''main'' ?w)) = Some 0"
    using aheadBehind_reporting [where port = "\<lambda>command s. (Returned (''5'' @ [TAB] @ ''x''), s)"
        and w = ?w and out = "''5'' @ [TAB] @ ''x''" and ?c1.0 = "''5''" and ?c2.0 = "''x''"
        and b = 5 and a = 0 and branch = "''feature''" and baseBranch = "''main''"]
    by (simp add: Let_def trim_def isWhiteSpace_def isAsciiText_def parseInt_def startsWith_def
        isDigit_def showNat.simps digitChar_def)
  have 5: "ahead (fst (getAheadBehindInfo (\<lambda>command s. (Returned ''invalid'', s)) ''feature''
             ''main'' ?w)) = None \<and>
           behind (fst (getAheadBehindInfo (\<lambda>command s. (Returned ''invalid'', s)) ''feature''
             ''main'' ?w)) = Some 0"
    using aheadBehind_reporting [where port = "\<lambda>command s. (Returned ''invalid'', s)"
        and w = ?w and out = "''invalid''" and ?c1.0 = "''invalid''" and b = 0
        and branch = "''feature''" and baseBranch = "''main''"]
    by (simp add: Let_def trim_def isWhiteSpace_def isAsciiText_def parseInt_def startsWith_def
        isDigit_def)
  show ?thesis using 1 2 3 4 5 by simp
qed

text \<open>
  Against \<^bold>\<open>C1\<close> as stated: a failed command and the malformed output \<^verbatim>\<open>x<TAB>y\<close>
  are both reported as zero ahead and zero behind, exactly as the genuine output
  \<^verbatim>\<open>0<TAB>0\<close> is; the output \<^verbatim>\<open>invalid\<close> gives an undefined \<open>ahead\<close> and a \<open>behind\<close> of
  zero.
\<close>

theorem aheadBehind_unknown_counterexample:
  "fst (getAheadBehindInfo (\<lambda>command s. (Threw ''fatal: bad revision'', s)) ''feature'' ''main''
          \<lparr>files = Map.empty, repo = (), history = []\<rparr>) = \<lparr>ahead = Some 0, behind = Some 0\<rparr> \<and>
   fst (getAheadBehindInfo (\<lambda>command s. (Returned (''x'' @ [TAB] @ ''y''), s)) ''feature'' ''main''
          \<lparr>files = Map.empty, repo = (), history = []\<rparr>) = \<lparr>ahead = Some 0, behind = Some 0\<rparr> \<and>
   fst (getAheadBehindInfo (\<lambda>command s. (Returned (''0'' @ [TAB] @ ''0''), s)) ''feature'' ''main''
          \<lparr>files = Map.empty, repo = (), history = []\<rparr>) = \<lparr>ahead = Some 0, behind = Some 0\<rparr> \<and>
   fst (getAheadBehindInfo (\<lambda>command s. (Returned ''invalid'', s)) ''feature'' ''main''
          \<lparr>files = Map.empty, repo = (), history = []\<rparr>) = \<lparr>ahead = None, behind = Some 0\<rparr>"
  by (simp add: getAheadBehindInfo_def executeGitCommand_def executeCommand_def aheadBehindOf_def
      trim_def isWhiteSpace_def elementAt_def parseIntOrZero_def parseInt_def startsWith_def
      isDigit_def digitsValue_def digitValue_def)

subsection \<open>Classification of a block\<close>

lemma length_splitNL: "length (splitNL s) = Suc (length (filter (\<lambda>c. c = NL) s))"
  by (induction s) (auto split: list.splits)

lemma includesStr_single: "includesStr s [c] \<longleftrightarrow> c \<in> set s"
  by (induction s) (auto simp: startsWith_def)

lemma startsWith_prefix: "startsWith s p \<longleftrightarrow> prefix p s"
  unfolding startsWith_def prefix_def
  by (metis append_eq_conv_conj)

lemma includesStr_sublist: "includesStr s sub \<longleftrightarrow> sublist sub s"
  by (induction s) (auto simp: startsWith_prefix sublist_Cons_right)

lemma isEmptySide_trim: "isEmptySide s \<longleftrightarrow> trim s = []"
  by (simp add: isEmptySide_def trim_eq_Nil)

lemma textLines_nonempty: "textLines s \<noteq> []"
  by (induction s) (auto split: list.splits)

lemma hd_textLines: "hd (textLines s) = takeWhile (\<lambda>c. c \<noteq> NL \<and> c \<noteq> CHR 0x0D) s"
  using textLines_nonempty by (induction s) (auto split: list.splits)

lemma tl_textLines_Cons:
  "tl (textLines (c # cs)) = (if c = NL \<or> c = CHR 0x0D then textLines cs else tl (textLines cs))"
  using textLines_nonempty [of cs] by (auto split: list.splits)

lemma prefix_takeWhile:
  assumes "\<forall>x \<in> set k. P x"
  shows "prefix k (takeWhile P s) \<longleftrightarrow> prefix k s"
proof
  assume "prefix k (takeWhile P s)"
  moreover have "prefix (takeWhile P s) s" by (metis prefixI takeWhile_dropWhile_id)
  ultimately show "prefix k s" by (rule prefix_order.trans)
next
  assume "prefix k s"
  then obtain r where "s = k @ r" by (auto simp: prefix_def)
  then show "prefix k (takeWhile P s)" using assms by (simp add: takeWhile_append2)
qed

lemma keywordAt_hd: "keywordAt (hd (textLines s)) \<longleftrightarrow> keywordAt s"
  unfolding keywordAt_def hd_textLines importKeywords_def
  by (simp add: prefix_takeWhile)

lemma keywordAt_startsWith:
  "list_ex (startsWith s) [''import'', ''require'', ''from'', ''#include''] \<longleftrightarrow> keywordAt s"
  by (simp add: keywordAt_def importKeywords_def startsWith_prefix)

lemma not_keywordAt_Nil: "\<not> keywordAt []"
  by (simp add: keywordAt_def importKeywords_def)

lemma importPatternFrom_lines:
  "importPatternFrom b s \<longleftrightarrow>
     (b \<and> keywordAt (hd (textLines s))) \<or> (\<exists>l \<in> set (tl (textLines s)). keywordAt l)"
proof (induction s arbitrary: b)
  case Nil
  then show ?case by (simp add: not_keywordAt_Nil)
next
  case (Cons c cs)
  have hd: "keywordAt (hd (textLines (c # cs))) \<longleftrightarrow> keywordAt (c # cs)" by (rule keywordAt_hd)
  have set: "set (textLines cs) = insert (hd (textLines cs)) (set (tl (textLines cs)))"
    using textLines_nonempty [of cs] by (cases "textLines cs") auto
  show ?case
    unfolding importPatternFrom.simps keywordAt_startsWith Cons.IH hd tl_textLines_Cons
    by (auto simp: set)
qed

lemma importPattern_lines: "importPattern s \<longleftrightarrow> looksLikeImports s"
proof -
  have "set (textLines s) = insert (hd (textLines s)) (set (tl (textLines s)))"
    using textLines_nonempty [of s] by (cases "textLines s") auto
  then show ?thesis
    unfolding importPattern_def importPatternFrom_lines looksLikeImports_def
    by auto
qed

lemma sort_uniqueInOrder: "sort (uniqueInOrder xs) = sorted_list_of_set (set xs)"
proof -
  have "distinct (uniqueInOrder xs)" by (simp add: uniqueInOrder_def)
  moreover have "set (uniqueInOrder xs) = set xs" by (simp add: uniqueInOrder_def)
  ultimately show ?thesis
    by (metis sorted_list_of_set_sort_remdups distinct_remdups_id)
qed

lemma mergeImports_union: "mergeImports ours theirs = unionOfLines ours theirs"
proof -
  have "set (filter (\<lambda>l. trim l \<noteq> []) (splitNL ours) @ filter (\<lambda>l. trim l \<noteq> []) (splitNL theirs)) =
        {l \<in> set (splitNL ours). \<not> isEmptySide l} \<union> {l \<in> set (splitNL theirs). \<not> isEmptySide l}"
    by (auto simp: isEmptySide_trim)
  then show ?thesis
    by (simp add: mergeImports_def unionOfLines_def Let_def sort_uniqueInOrder)
qed

lemma lit_Some: "lit c s = Some r \<longleftrightarrow> s = c # r"
  by (auto simp: lit_def split: list.splits)

lemma optLit_Some: "optLit c s = Some r \<longleftrightarrow> s = c # r \<or> (r = s \<and> (s = [] \<or> hd s \<noteq> c))"
  by (auto simp: optLit_def lit_def split: list.splits option.splits if_splits)

lemma digits1_Some:
  "digits1 s = Some r \<longleftrightarrow> (\<exists>d. isNumeral d \<and> s = d @ r \<and> (r = [] \<or> \<not> isDigit (hd r)))"
proof
  assume "digits1 s = Some r"
  then have 1: "takeWhile isDigit s \<noteq> []" and 2: "r = dropWhile isDigit s"
    by (auto simp: digits1_def split: if_splits)
  have "isNumeral (takeWhile isDigit s)"
    using 1 by (auto simp: isNumeral_def dest: set_takeWhileD)
  moreover have "s = takeWhile isDigit s @ r" using 2 by simp
  moreover have "r = [] \<or> \<not> isDigit (hd r)" unfolding 2 by (metis hd_dropWhile)
  ultimately show "\<exists>d. isNumeral d \<and> s = d @ r \<and> (r = [] \<or> \<not> isDigit (hd r))" by blast
next
  assume "\<exists>d. isNumeral d \<and> s = d @ r \<and> (r = [] \<or> \<not> isDigit (hd r))"
  then obtain d where d: "isNumeral d" "s = d @ r" "r = [] \<or> \<not> isDigit (hd r)" by blast
  have t: "takeWhile isDigit s = d"
    using d by (cases r) (auto simp: isNumeral_def takeWhile_append2)
  have "dropWhile isDigit s = r"
    using d by (cases r) (auto simp: isNumeral_def dropWhile_append2)
  then show "digits1 s = Some r" using d(1) t by (simp add: digits1_def isNumeral_def)
qed

lemma isNumeral_hd: "isNumeral d \<Longrightarrow> hd (d @ r) \<noteq> CHR ''v'' \<and> d @ r \<noteq> []"
  by (cases d) (auto simp: isNumeral_def isDigit_def)

lemma semverLiteralAt_iff: "semverLiteralAt s \<longleftrightarrow> (\<exists>x rest. semverLiteral x \<and> s = x @ rest)"
proof
  assume "semverLiteralAt s"
  then obtain s1 s2 s3 s4 s5 s6 s7 s8 where
    "lit DQ s = Some s1" "optLit CHR ''v'' s1 = Some s2" "digits1 s2 = Some s3"
    "lit CHR ''.'' s3 = Some s4" "digits1 s4 = Some s5" "lit CHR ''.'' s5 = Some s6"
    "digits1 s6 = Some s7" "lit DQ s7 = Some s8"
    unfolding semverLiteralAt_def by (auto simp: bind_eq_Some_conv)
  then obtain a b c where abc: "isNumeral a" "isNumeral b" "isNumeral c"
    and s: "s = DQ # s1" "s1 = CHR ''v'' # s2 \<or> s2 = s1" "s2 = a @ s3" "s3 = CHR ''.'' # s4"
      "s4 = b @ s5" "s5 = CHR ''.'' # s6" "s6 = c @ s7" "s7 = DQ # s8"
    unfolding lit_Some optLit_Some digits1_Some by blast
  from s(2) show "\<exists>x rest. semverLiteral x \<and> s = x @ rest"
  proof
    assume "s1 = CHR ''v'' # s2"
    then have "s = ([DQ] @ ''v'' @ a @ ''.'' @ b @ ''.'' @ c @ [DQ]) @ s8" using s by simp
    moreover have "semverLiteral ([DQ] @ ''v'' @ a @ ''.'' @ b @ ''.'' @ c @ [DQ])"
      unfolding semverLiteral_def using abc by blast
    ultimately show ?thesis by blast
  next
    assume "s2 = s1"
    then have "s = ([DQ] @ a @ ''.'' @ b @ ''.'' @ c @ [DQ]) @ s8" using s by simp
    moreover have "semverLiteral ([DQ] @ a @ ''.'' @ b @ ''.'' @ c @ [DQ])"
      unfolding semverLiteral_def using abc by blast
    ultimately show ?thesis by blast
  qed
next
  assume "\<exists>x rest. semverLiteral x \<and> s = x @ rest"
  then obtain a b c rest where abc: "isNumeral a" "isNumeral b" "isNumeral c"
    and s: "s = ([DQ] @ a @ ''.'' @ b @ ''.'' @ c @ [DQ]) @ rest \<or>
            s = ([DQ] @ ''v'' @ a @ ''.'' @ b @ ''.'' @ c @ [DQ]) @ rest"
    unfolding semverLiteral_def by blast
  let ?t = "a @ CHR ''.'' # b @ CHR ''.'' # c @ DQ # rest"
  have nd: "\<not> isDigit CHR ''.''" "\<not> isDigit DQ" by (simp_all add: isDigit_def)
  have 1: "digits1 (c @ DQ # rest) = Some (DQ # rest)"
    unfolding digits1_Some using abc(3) nd by auto
  have 2: "digits1 (b @ CHR ''.'' # c @ DQ # rest) = Some (CHR ''.'' # c @ DQ # rest)"
    unfolding digits1_Some using abc(2) nd by auto
  have 3: "digits1 ?t = Some (CHR ''.'' # b @ CHR ''.'' # c @ DQ # rest)"
    unfolding digits1_Some using abc(1) nd by auto
  have 4: "optLit CHR ''v'' ?t = Some ?t"
    unfolding optLit_Some using isNumeral_hd [OF abc(1)] by simp
  have 5: "optLit CHR ''v'' (CHR ''v'' # ?t) = Some ?t"
    unfolding optLit_Some by simp
  have l: "lit c0 (c0 # r) = Some r" for c0 r by (simp add: lit_def)
  have "s = DQ # ?t \<or> s = DQ # CHR ''v'' # ?t" using s by simp
  then show "semverLiteralAt s"
    unfolding semverLiteralAt_def by (auto simp: l 1 2 3 4 5)
qed

lemma not_semverLiteral_Nil: "\<not> semverLiteral []"
  by (simp add: semverLiteral_def)

lemma semverLiteralIn_iff: "semverLiteralIn s \<longleftrightarrow> (\<exists>x. semverLiteral x \<and> sublist x s)"
proof (induction s)
  case Nil
  then show ?case using not_semverLiteral_Nil by auto
next
  case (Cons c cs)
  have "semverLiteralAt (c # cs) \<longleftrightarrow> (\<exists>x. semverLiteral x \<and> prefix x (c # cs))"
    unfolding semverLiteralAt_iff prefix_def by blast
  then show ?case
    unfolding semverLiteralIn.simps Cons.IH sublist_Cons_right by blast
qed

lemma versionPattern_token: "versionPattern s \<longleftrightarrow> hasVersionToken s"
  by (simp add: versionPattern_def hasVersionToken_def includesStr_sublist semverLiteralIn_iff)

lemma isSimpleAddition_trimmed:
  "isSimpleAddition ours theirs \<longleftrightarrow> simpleAdditionsByTrimmedLines ours theirs"
  by (simp add: isSimpleAddition_def simpleAdditionsByTrimmedLines_def Let_def length_splitNL
      includesStr_single includesStr_sublist [symmetric])

lemma emptySide_member: "isEmptySide s \<Longrightarrow> c \<in> set s \<Longrightarrow> isWhiteSpace c"
  unfolding isEmptySide_def by blast

lemma sublist_member: "sublist (c # x) s \<Longrightarrow> c \<in> set s"
  by (auto simp: sublist_def)

lemma semverLiteral_hd: "semverLiteral x \<Longrightarrow> \<exists>r. x = DQ # r"
  by (auto simp: semverLiteral_def)

lemma emptySide_no_token: "isEmptySide s \<Longrightarrow> \<not> hasVersionToken s"
proof
  assume e: "isEmptySide s" and "hasVersionToken s"
  then consider "sublist ''version'' s" | "sublist ''VERSION'' s"
    | x where "semverLiteral x" "sublist x s"
    unfolding hasVersionToken_def by blast
  then show False
  proof cases
    case 1
    then have "CHR ''v'' \<in> set s" by (rule sublist_member)
    with e have "isWhiteSpace CHR ''v''" by (rule emptySide_member)
    then show False by (simp add: isWhiteSpace_def)
  next
    case 2
    then have "CHR ''V'' \<in> set s" by (rule sublist_member)
    with e have "isWhiteSpace CHR ''V''" by (rule emptySide_member)
    then show False by (simp add: isWhiteSpace_def)
  next
    case 3
    then obtain r where "x = DQ # r" using semverLiteral_hd by blast
    with 3(2) have "sublist (DQ # r) s" by simp
    then have "DQ \<in> set s" by (rule sublist_member)
    with e have "isWhiteSpace DQ" by (rule emptySide_member)
    then show False by (simp add: isWhiteSpace_def)
  qed
qed

text \<open>
  \<^bold>\<open>C3\<close>, as the code has it. For sides of ASCII text the classification is a function
  of the two sides alone, and it is the first rule of the table that applies, in the
  order of the table: rules 1 to 5 and 7 as the specification words them, rule 6 with the
  lines of the trimmed text counted, and neither resolution nor category when no rule
  applies. In particular a block whose ours side is empty and whose theirs side is not is
  classified by rule 1; it never meets the condition of rule 7, since an empty side holds
  no version token.
\<close>

theorem classification_precedence:
  "isAsciiText ours \<and> isAsciiText theirs \<longrightarrow>
     smartResolution ours theirs =
       firstMatchingRule (classificationRules simpleAdditionsByTrimmedLines) ([], []) ours theirs \<and>
     (isEmptySide ours \<and> \<not> isEmptySide theirs \<longrightarrow>
        smartResolution ours theirs = (theirs, ''theirs (ours empty)'') \<and> \<not> hasVersionToken ours)"
proof -
  have 1: "smartResolution ours theirs =
       firstMatchingRule (classificationRules simpleAdditionsByTrimmedLines) ([], []) ours theirs"
    by (simp add: smartResolution_def classificationRules_def isEmptySide_trim
        includesStr_sublist isImportBlock_def importPattern_lines mergeImports_union
        isSimpleAddition_trimmed isVersionConflict_def versionPattern_token)
  have 2: "smartResolution ours theirs = (theirs, ''theirs (ours empty)'')"
    if "isEmptySide ours" "\<not> isEmptySide theirs"
    using that by (simp add: smartResolution_def isEmptySide_trim)
  show ?thesis using 1 2 emptySide_no_token by blast
qed

text \<open>
  An empty ours side against a theirs side that carries a version token: rule 1. Two
  short sides that both carry a version token meet the conditions of rules 6 and 7, and
  rule 6, the earlier one, classifies them.
\<close>

theorem classification_precedence_witness:
  "smartResolution '' '' (''version = '' @ [DQ] @ ''1.2.3'' @ [DQ]) =
     (''version = '' @ [DQ] @ ''1.2.3'' @ [DQ], ''theirs (ours empty)'') \<and>
   \<not> hasVersionToken '' '' \<and>
   hasVersionToken ''version 1'' \<and> hasVersionToken ''version 2'' \<and>
   smartResolution ''version 1'' ''version 2'' =
     (''version 1'' @ [NL] @ ''version 2'', ''combined additions'')"
proof -
  have a: "isAsciiText '' '' \<and> isAsciiText (''version = '' @ [DQ] @ ''1.2.3'' @ [DQ])"
    by (simp add: isAsciiText_def)
  have e: "isEmptySide '' '' \<and> \<not> isEmptySide (''version = '' @ [DQ] @ ''1.2.3'' @ [DQ])"
    by (simp add: isEmptySide_def isWhiteSpace_def)
  have 1: "smartResolution '' '' (''version = '' @ [DQ] @ ''1.2.3'' @ [DQ]) =
     (''version = '' @ [DQ] @ ''1.2.3'' @ [DQ], ''theirs (ours empty)'') \<and>
     \<not> hasVersionToken '' ''"
    using classification_precedence [of "'' ''" "''version = '' @ [DQ] @ ''1.2.3'' @ [DQ]"] a e
    by blast
  have t: "hasVersionToken ''version 1'' \<and> hasVersionToken ''version 2''"
    by (simp add: hasVersionToken_def sublist_code)
  have b: "isAsciiText ''version 1'' \<and> isAsciiText ''version 2''"
    by (simp add: isAsciiText_def)
  have r: "firstMatchingRule (classificationRules simpleAdditionsByTrimmedLines) ([], [])
             ''version 1'' ''version 2'' =
           (''version 1'' @ [NL] @ ''version 2'', ''combined additions'')"
    by (simp add: classificationRules_def isEmptySide_def isWhiteSpace_def sublist_code
        looksLikeImports_def keywordAt_def importKeywords_def simpleAdditionsByTrimmedLines_def trim_def)
  have 2: "smartResolution ''version 1'' ''version 2'' =
     (''version 1'' @ [NL] @ ''version 2'', ''combined additions'')"
    using classification_precedence [of "''version 1''" "''version 2''"] b r by simp
  show ?thesis using 1 t 2 by blast
qed

text \<open>
  Against \<^bold>\<open>C3\<close> as stated, with rule 6 and rule 8 in the words of the specification. The
  ours side below has two lines that are not blank, with four blank lines between them,
  and no side has a deletion indicator: by the rules as stated the block is combined
  additions, while the code counts six lines, passes rule 6 by and classifies the block
  by rule 7. A block that no rule resolves gets an empty category from the code, not the
  category \<^verbatim>\<open>manual resolution needed\<close>.
\<close>

theorem classification_as_stated_counterexample:
  "firstMatchingRule (classificationRules simpleAdditionsByNonBlankLines)
     ([], ''manual resolution needed'')
     (''version 1'' @ [NL, NL, NL, NL, NL] @ ''x'') ''version 2'' =
     ((''version 1'' @ [NL, NL, NL, NL, NL] @ ''x'') @ [NL] @ ''version 2'', ''combined additions'') \<and>
   smartResolution (''version 1'' @ [NL, NL, NL, NL, NL] @ ''x'') ''version 2'' =
     (''version 2'', ''theirs (version update)'') \<and>
   firstMatchingRule (classificationRules simpleAdditionsByNonBlankLines)
     ([], ''manual resolution needed'') ''x-'' ''y-'' = ([], ''manual resolution needed'') \<and>
   smartResolution ''x-'' ''y-'' = ([], [])"
proof -
  have 1: "firstMatchingRule (classificationRules simpleAdditionsByNonBlankLines)
     ([], ''manual resolution needed'')
     (''version 1'' @ [NL, NL, NL, NL, NL] @ ''x'') ''version 2'' =
     ((''version 1'' @ [NL, NL, NL, NL, NL] @ ''x'') @ [NL] @ ''version 2'', ''combined additions'')"
    by (simp add: classificationRules_def isEmptySide_def isWhiteSpace_def sublist_code
        looksLikeImports_def keywordAt_def importKeywords_def simpleAdditionsByNonBlankLines_def)
  have 2: "smartResolution (''version 1'' @ [NL, NL, NL, NL, NL] @ ''x'') ''version 2'' =
     (''version 2'', ''theirs (version update)'')"
    by (simp add: smartResolution_def isSimpleAddition_def isImportBlock_def importPattern_def
      isVersionConflict_def versionPattern_def trim_def isWhiteSpace_def startsWith_def)
  have v: "\<not> hasVersionToken ''x-''"
    unfolding versionPattern_token [symmetric]
    by (simp add: versionPattern_def semverLiteralAt_def lit_def startsWith_def)
  have 3: "firstMatchingRule (classificationRules simpleAdditionsByNonBlankLines)
     ([], ''manual resolution needed'') ''x-'' ''y-'' = ([], ''manual resolution needed'')"
    using v
    by (simp add: classificationRules_def isEmptySide_def isWhiteSpace_def sublist_code
        looksLikeImports_def keywordAt_def importKeywords_def simpleAdditionsByNonBlankLines_def)
  have 4: "smartResolution ''x-'' ''y-'' = ([], [])"
    by (simp add: smartResolution_def isSimpleAddition_def isImportBlock_def importPattern_def
      isVersionConflict_def versionPattern_def semverLiteralAt_def lit_def
      trim_def isWhiteSpace_def startsWith_def)
  show ?thesis using 1 2 3 4 by blast
qed

text \<open>
  \<^bold>\<open>C9\<close>, as the code has it. When rules 1 to 5 do not apply, a block is classified as
  combined additions exactly when the trimmed text of each side has at most five lines,
  blank lines between them counted (at most four line breaks), and neither side contains
  the text \<^verbatim>\<open>delete\<close> or the character \<^verbatim>\<open>-\<close> anywhere; the resolution is then the ours
  text, one line break, and the theirs text.
\<close>

theorem combined_additions_exactly:
  "\<not> (trim ours = [] \<and> trim theirs \<noteq> []) \<and> \<not> (trim ours \<noteq> [] \<and> trim theirs = []) \<and>
   \<not> includesStr ours theirs \<and> \<not> includesStr theirs ours \<and> \<not> isImportBlock ours theirs \<longrightarrow>
   (snd (smartResolution ours theirs) = ''combined additions'' \<longleftrightarrow>
      length (filter (\<lambda>c. c = NL) (trim ours)) \<le> 4 \<and>
      length (filter (\<lambda>c. c = NL) (trim theirs)) \<le> 4 \<and>
      \<not> includesStr ours ''delete'' \<and> \<not> includesStr theirs ''delete'' \<and>
      CHR ''-'' \<notin> set ours \<and> CHR ''-'' \<notin> set theirs) \<and>
   (snd (smartResolution ours theirs) = ''combined additions'' \<longrightarrow>
      fst (smartResolution ours theirs) = ours @ [NL] @ theirs)"
  by (auto simp: smartResolution_def isSimpleAddition_def length_splitNL includesStr_single)

text \<open>Two one-line additions.\<close>

theorem combined_additions_witness:
  "smartResolution ''alpha'' ''beta'' = (''alpha'' @ [NL] @ ''beta'', ''combined additions'')"
proof -
  have "\<not> (trim ''alpha'' = [] \<and> trim ''beta'' \<noteq> []) \<and> \<not> (trim ''alpha'' \<noteq> [] \<and> trim ''beta'' = []) \<and>
   \<not> includesStr ''alpha'' ''beta'' \<and> \<not> includesStr ''beta'' ''alpha'' \<and> \<not> isImportBlock ''alpha'' ''beta''"
    by (simp add: trim_def isWhiteSpace_def startsWith_def isImportBlock_def importPattern_def)
  moreover have "length (filter (\<lambda>c. c = NL) (trim ''alpha'')) \<le> 4 \<and>
      length (filter (\<lambda>c. c = NL) (trim ''beta'')) \<le> 4 \<and>
      \<not> includesStr ''alpha'' ''delete'' \<and> \<not> includesStr ''beta'' ''delete'' \<and>
      CHR ''-'' \<notin> set ''alpha'' \<and> CHR ''-'' \<notin> set ''beta''"
    by (simp add: trim_def isWhiteSpace_def startsWith_def)
  ultimately show ?thesis
    using combined_additions_exactly [of "''alpha''" "''beta''"]
    by (metis prod.collapse)
qed

text \<open>
  Against \<^bold>\<open>C9\<close> as stated: the ours side has two lines that are not blank, with four
  blank lines between them, the theirs side has one; no side has a deletion indicator
  and rules 1 to 5 do not apply. The block is not classified as combined additions: it
  gets no resolution at all.
\<close>

theorem combined_additions_counterexample:
  "length (filter (\<lambda>l. trim l \<noteq> []) (splitNL (''a'' @ [NL, NL, NL, NL, NL] @ ''b''))) = 2 \<and>
   length (filter (\<lambda>l. trim l \<noteq> []) (splitNL ''c'')) = 1 \<and>
   \<not> includesStr (''a'' @ [NL, NL, NL, NL, NL] @ ''b'') ''delete'' \<and> \<not> includesStr ''c'' ''delete'' \<and>
   CHR ''-'' \<notin> set (''a'' @ [NL, NL, NL, NL, NL] @ ''b'') \<and> CHR ''-'' \<notin> set ''c'' \<and>
   trim (''a'' @ [NL, NL, NL, NL, NL] @ ''b'') \<noteq> [] \<and> trim ''c'' \<noteq> [] \<and>
   \<not> includesStr (''a'' @ [NL, NL, NL, NL, NL] @ ''b'') ''c'' \<and>
   \<not> includesStr ''c'' (''a'' @ [NL, NL, NL, NL, NL] @ ''b'') \<and>
   \<not> isImportBlock (''a'' @ [NL, NL, NL, NL, NL] @ ''b'') ''c'' \<and>
   smartResolution (''a'' @ [NL, NL, NL, NL, NL] @ ''b'') ''c'' = ([], [])"
  by (simp add: smartResolution_def isSimpleAddition_def isImportBlock_def importPattern_def
      isVersionConflict_def versionPattern_def semverLiteralAt_def lit_def
      trim_def isWhiteSpace_def startsWith_def)

subsection \<open>Preview mode\<close>

lemma resolveFile_preview_world: "snd (resolveFile port strat True file w) = w"
  by (simp add: resolveFile_def Let_def)

lemma resolveFile_preview_smart:
  "fst (resolveFile port ''smart'' True file w) =
     \<lparr>resolved = length (conflictBlocks (analyzeFileConflicts (files w) file)),
      strategy = map previewStrategy (conflictBlocks (analyzeFileConflicts (files w) file))\<rparr>"
  by (simp add: resolveFile_def Let_def)

lemma totalConflicts_length:
  "totalConflicts (analyzeFileConflicts fs file) = length (conflictBlocks (analyzeFileConflicts fs file))"
  by (simp add: analyzeFileConflicts_def Let_def split: option.splits)

lemma previewStrategy_would: "startsWith (previewStrategy conflict) ''Would ''"
  by (simp add: previewStrategy_def startsWith_def)

lemma resolveFile_preview_would:
  assumes "strat = ''ours'' \<or> strat = ''theirs'' \<or> strat = ''smart''"
  shows "\<forall>s \<in> set (strategy (fst (resolveFile port strat True file w))). startsWith s ''Would ''"
  using assms previewStrategy_would
  by (auto simp: resolveFile_def Let_def startsWith_def)

lemma fold_resolveAndStage_preview:
  "fold (resolveAndStage port strat True) fs (n, details, steps, warnings, w) =
     (n + length (filter (\<lambda>f. resolved (fst (resolveFile port strat True f w)) > 0) fs),
      details @ map (\<lambda>f. ''**'' @ f @ '':**'' @ [NL] @
                 join [NL] (map (\<lambda>s. ''  '' @ BULLET @ '' '' @ s)
                   (strategy (fst (resolveFile port strat True f w)))))
        (filter (\<lambda>f. resolved (fst (resolveFile port strat True f w)) > 0) fs),
      steps @ map (\<lambda>f. CLIPBOARD @ '' Would resolve '' @ f)
        (filter (\<lambda>f. resolved (fst (resolveFile port strat True f w)) > 0) fs),
      warnings @ map (\<lambda>f. ''Failed to resolve '' @ f @ '': '' @
                 join '', '' (strategy (fst (resolveFile port strat True f w))))
        (filter (\<lambda>f. \<not> resolved (fst (resolveFile port strat True f w)) > 0) fs),
      w)"
proof (induction fs arbitrary: n details steps warnings)
  case Nil
  then show ?case by simp
next
  case (Cons f fs)
  obtain r where r: "resolveFile port strat True f w = (r, w)"
    using resolveFile_preview_world [of port strat f w] by (cases "resolveFile port strat True f w") simp
  show ?case
  proof (cases "resolved r > 0")
    case True
    then have "resolveAndStage port strat True f (n, details, steps, warnings, w) =
      (n + 1, details @ [''**'' @ f @ '':**'' @ [NL] @
                 join [NL] (map (\<lambda>s. ''  '' @ BULLET @ '' '' @ s) (strategy r))],
       steps @ [CLIPBOARD @ '' Would resolve '' @ f], warnings, w)"
      by (simp add: resolveAndStage_def r Let_def)
    then show ?thesis using True r by (simp add: Cons.IH)
  next
    case False
    then have "resolveAndStage port strat True f (n, details, steps, warnings, w) =
      (n, details, steps, warnings @ [''Failed to resolve '' @ f @ '': '' @ join '', '' (strategy r)], w)"
      by (simp add: resolveAndStage_def r Let_def)
    then show ?thesis using False r by (simp add: Cons.IH)
  qed
qed

lemma handleAutoResolve_preview_world:
  "snd (handleAutoResolve port strat targetFiles backupChanges continueOperation True steps warnings w) =
     (if targetFiles \<noteq> [] then w else snd (getConflictedFiles port w))"
  by (simp add: handleAutoResolve_def Let_def fold_resolveAndStage_preview split: prod.splits)

lemma history_getConflictedFiles:
  "history (snd (getConflictedFiles port w)) = history w @ [Exec ''git diff --name-only --diff-filter=U'']"
  by (simp add: getConflictedFiles_def Let_def executeCommand_def split: prod.splits)


text \<open>
  Preview mode mutates nothing. For every strategy, every list of files and every
  outcome: when target files are given the world after the run is the world before it,
  and otherwise the one command that has run is the listing of the unmerged files. So no
  file is written, no backup stash is created, nothing is checked out or staged, and no
  suspended operation is continued. The per-file result leaves the world as it is, every
  description it gives for the strategies ours, theirs and smart starts with
  \<^verbatim>\<open>Would\<close>, and the run reports a step \<^verbatim>\<open>Would resolve\<close> for each file that counts a
  resolved block.
\<close>

lemma preview_no_mutation:
  "snd (handleAutoResolve port strat targetFiles backupChanges continueOperation True steps warnings w) =
     (if targetFiles \<noteq> [] then w else snd (getConflictedFiles port w)) \<and>
   history (snd (handleAutoResolve port strat targetFiles backupChanges continueOperation True
                   steps warnings w)) =
     history w @ (if targetFiles \<noteq> [] then [] else [Exec ''git diff --name-only --diff-filter=U'']) \<and>
   snd (resolveFile port strat True path w) = w \<and>
   (strat = ''ours'' \<or> strat = ''theirs'' \<or> strat = ''smart'' \<longrightarrow>
      (\<forall>s \<in> set (strategy (fst (resolveFile port strat True path w))). startsWith s ''Would '')) \<and>
   (let fs = (if targetFiles \<noteq> [] then targetFiles else fst (getConflictedFiles port w));
        w0 = (if targetFiles \<noteq> [] then w else snd (getConflictedFiles port w))
    in fs \<noteq> [] \<longrightarrow>
      (case fst (handleAutoResolve port strat targetFiles backupChanges continueOperation True
                   steps warnings w) of
         NoConflictedFiles \<Rightarrow> False
       | AutoResolved preview n m name details steps1 warnings1 \<Rightarrow>
           preview \<and>
           n = length (filter (\<lambda>f. resolved (fst (resolveFile port strat True f w0)) > 0) fs) \<and>
           steps1 = steps @
             [''Auto-resolving '' @ showNat (length fs) @ '' files using '' @
              singleQuoted strat @ '' strategy'',
              MAGNIFIER @ '' PREVIEW MODE - No changes will be made''] @
             map (\<lambda>f. CLIPBOARD @ '' Would resolve '' @ f)
               (filter (\<lambda>f. resolved (fst (resolveFile port strat True f w0)) > 0) fs)))"
proof -
  have 1: "snd (handleAutoResolve port strat targetFiles backupChanges continueOperation True
                  steps warnings w) =
     (if targetFiles \<noteq> [] then w else snd (getConflictedFiles port w))"
    by (rule handleAutoResolve_preview_world)
  have 2: "history (snd (handleAutoResolve port strat targetFiles backupChanges continueOperation True
                   steps warnings w)) =
     history w @ (if targetFiles \<noteq> [] then [] else [Exec ''git diff --name-only --diff-filter=U''])"
    unfolding 1 by (simp add: history_getConflictedFiles)
  have 3: "strat = ''ours'' \<or> strat = ''theirs'' \<or> strat = ''smart'' \<longrightarrow>
      (\<forall>s \<in> set (strategy (fst (resolveFile port strat True path w))). startsWith s ''Would '')"
    using resolveFile_preview_would by blast
  have 4: "let fs = (if targetFiles \<noteq> [] then targetFiles else fst (getConflictedFiles port w));
        w0 = (if targetFiles \<noteq> [] then w else snd (getConflictedFiles port w))
    in fs \<noteq> [] \<longrightarrow>
      (case fst (handleAutoResolve port strat targetFiles backupChanges continueOperation True
                   steps warnings w) of
         NoConflictedFiles \<Rightarrow> False
       | AutoResolved preview n m name details steps1 warnings1 \<Rightarrow>
           preview \<and>
           n = length (filter (\<lambda>f. resolved (fst (resolveFile port strat True f w0)) > 0) fs) \<and>
           steps1 = steps @
             [''Auto-resolving '' @ showNat (length fs) @ '' files using '' @
              singleQuoted strat @ '' strategy'',
              MAGNIFIER @ '' PREVIEW MODE - No changes will be made''] @
             map (\<lambda>f. CLIPBOARD @ '' Would resolve '' @ f)
               (filter (\<lambda>f. resolved (fst (resolveFile port strat True f w0)) > 0) fs))"
    by (simp add: handleAutoResolve_def Let_def fold_resolveAndStage_preview split: prod.splits)
  have 5: "snd (resolveFile port strat True path w) = w"
    by (rule resolveFile_preview_world)
  show ?thesis using 1 2 3 4 5 by blast
qed


text \<open>A preview of the smart strategy on a file with one block.\<close>

lemma preview_no_mutation_example:
  "snd (handleAutoResolve (\<lambda>command s. (Returned [], s)) ''smart'' [''a.txt''] True True True [] []
      \<lparr>files = [''a.txt'' \<mapsto> ''<<<<<<< HEAD'' @ [NL] @ ''a'' @ [NL] @ ''======='' @ [NL] @ ''ab'' @
                               [NL] @ ''>>>>>>> incoming''],
        repo = (), history = []\<rparr>) =
     \<lparr>files = [''a.txt'' \<mapsto> ''<<<<<<< HEAD'' @ [NL] @ ''a'' @ [NL] @ ''======='' @ [NL] @ ''ab'' @
                              [NL] @ ''>>>>>>> incoming''],
      repo = (), history = []\<rparr> \<and>
   list_all (\<lambda>s. startsWith s ''Would '')
     (strategy (fst (resolveFile (\<lambda>command s. (Returned [], s)) ''smart'' True ''a.txt''
        \<lparr>files = [''a.txt'' \<mapsto> ''<<<<<<< HEAD'' @ [NL] @ ''a'' @ [NL] @ ''======='' @ [NL] @ ''ab'' @
                                 [NL] @ ''>>>>>>> incoming''],
          repo = (), history = []\<rparr>))) \<and>
   strategy (fst (resolveFile (\<lambda>command s. (Returned [], s)) ''smart'' True ''a.txt''
        \<lparr>files = [''a.txt'' \<mapsto> ''<<<<<<< HEAD'' @ [NL] @ ''a'' @ [NL] @ ''======='' @ [NL] @ ''ab'' @
                                 [NL] @ ''>>>>>>> incoming''],
          repo = (), history = []\<rparr>)) \<noteq> []"
proof -
  let ?p = "(\<lambda>command s. (Returned [], s)) :: unit Port"
  let ?w = "\<lparr>files = [''a.txt'' \<mapsto> ''<<<<<<< HEAD'' @ [NL] @ ''a'' @ [NL] @ ''======='' @ [NL] @ ''ab'' @
                               [NL] @ ''>>>>>>> incoming''],
        repo = (), history = []\<rparr> :: unit World"
  have a: "snd (handleAutoResolve ?p ''smart'' [''a.txt''] True True True [] [] ?w) = ?w"
    using preview_no_mutation [where port = ?p and strat = "''smart''" and targetFiles = "[''a.txt'']"
        and w = ?w and backupChanges = True and continueOperation = True and steps = "[]"
        and warnings = "[]"]
    by simp
  have b: "list_all (\<lambda>s. startsWith s ''Would '')
             (strategy (fst (resolveFile ?p ''smart'' True ''a.txt'' ?w)))"
    using preview_no_mutation [where port = ?p and strat = "''smart''" and path = "''a.txt''"
        and w = ?w]
    by (simp add: list_all_iff)
  have c: "strategy (fst (resolveFile ?p ''smart'' True ''a.txt'' ?w)) \<noteq> []"
    by (simp add: resolveFile_def analyzeFileConflicts_def scanConflicts.simps startsWith_def slice_def)
  show ?thesis using a b c by simp
qed

text \<open>
  \<^bold>\<open>C5\<close> has the preview mutate nothing, which is the lemma above, and has it run the
  same classification as a real run and report it as \<^verbatim>\<open>would resolve\<close> text. The code
  does not do the second: the preview branch, which the source introduces with the
  comment \<^verbatim>\<open>Preview what would be resolved\<close>, tests three conditions of its own and never
  calls the classification. For the file below, whose one block has a theirs side that
  contains its ours side, a real run classifies the block as \<^verbatim>\<open>theirs (includes ours)\<close>
  and resolves it, while the preview of the same file describes the block as requiring
  manual resolution.
\<close>

theorem preview_classification_diverges:
  "fst (resolveFile (\<lambda>command s. (Returned [], s)) ''smart'' False ''a.txt''
      \<lparr>files = [''a.txt'' \<mapsto> ''<<<<<<< HEAD'' @ [NL] @ ''a'' @ [NL] @ ''======='' @ [NL] @ ''ab'' @
                               [NL] @ ''>>>>>>> incoming''],
        repo = (), history = []\<rparr>) =
     \<lparr>resolved = 1, strategy = [''Line 1: theirs (includes ours)'']\<rparr> \<and>
   fst (resolveFile (\<lambda>command s. (Returned [], s)) ''smart'' True ''a.txt''
      \<lparr>files = [''a.txt'' \<mapsto> ''<<<<<<< HEAD'' @ [NL] @ ''a'' @ [NL] @ ''======='' @ [NL] @ ''ab'' @
                               [NL] @ ''>>>>>>> incoming''],
        repo = (), history = []\<rparr>) =
     \<lparr>resolved = 1, strategy = [''Would require manual resolution'']\<rparr>"
  by (simp add: resolveFile_def analyzeFileConflicts_def scanConflicts.simps applySmartResolution_def resolveBlock_def
      smartResolution_def previewStrategy_def isImportBlock_def importPattern_def
      trim_def isWhiteSpace_def startsWith_def slice_def showNat.simps digitChar_def)

text \<open>
  \<^bold>\<open>C10\<close>. In preview mode with the smart strategy the resolved count of a file is the
  number of its conflict blocks: every block is counted and gets one of the four
  \<^verbatim>\<open>Would\<close> descriptions, \<^verbatim>\<open>Would require manual resolution\<close> included. Hence there
  is a file for which the preview counts a block as resolved that a run without preview
  leaves unresolved.
\<close>

theorem preview_counts_every_block:
  "(let analysis = analyzeFileConflicts (files w) path;
        r = fst (resolveFile port ''smart'' True path w)
    in resolved r = totalConflicts analysis \<and>
       resolved r = length (conflictBlocks analysis) \<and>
       strategy r = map previewStrategy (conflictBlocks analysis) \<and>
       (\<forall>s \<in> set (strategy r).
          s \<in> set [''Would choose theirs (ours empty)'', ''Would choose ours (theirs empty)'',
                   ''Would merge imports'', ''Would require manual resolution''])) \<and>
   (\<exists>path (w :: unit World) port.
      strategy (fst (resolveFile port ''smart'' True path w)) = [''Would require manual resolution''] \<and>
      resolved (fst (resolveFile port ''smart'' True path w)) = 1 \<and>
      resolved (fst (resolveFile port ''smart'' False path w)) = 0)"
proof -
  have "previewStrategy b \<in> set [''Would choose theirs (ours empty)'',
      ''Would choose ours (theirs empty)'', ''Would merge imports'',
      ''Would require manual resolution'']" for b
    by (simp add: previewStrategy_def)
  then have 1: "\<forall>s \<in> set (map previewStrategy bs).
          s \<in> set [''Would choose theirs (ours empty)'', ''Would choose ours (theirs empty)'',
                   ''Would merge imports'', ''Would require manual resolution'']" for bs
    by (auto simp del: set_simps)
  let ?p = "(\<lambda>command s. (Returned [], s)) :: unit Port"
  let ?w = "\<lparr>files = [''a.txt'' \<mapsto> ''<<<<<<< HEAD'' @ [NL] @ ''x-'' @ [NL] @ ''======='' @ [NL] @ ''y-'' @
                               [NL] @ ''>>>>>>> incoming''],
        repo = (), history = []\<rparr> :: unit World"
  have 2: "strategy (fst (resolveFile ?p ''smart'' True ''a.txt'' ?w)) = [''Would require manual resolution''] \<and>
      resolved (fst (resolveFile ?p ''smart'' True ''a.txt'' ?w)) = 1 \<and>
      resolved (fst (resolveFile ?p ''smart'' False ''a.txt'' ?w)) = 0"
    by (simp add: resolveFile_def analyzeFileConflicts_def scanConflicts.simps applySmartResolution_def resolveBlock_def
      smartResolution_def previewStrategy_def isImportBlock_def importPattern_def
      isSimpleAddition_def isVersionConflict_def versionPattern_def semverLiteralAt_def lit_def
      trim_def isWhiteSpace_def startsWith_def slice_def)
  have A: "(let analysis = analyzeFileConflicts (files w) path;
        r = fst (resolveFile port ''smart'' True path w)
    in resolved r = totalConflicts analysis \<and>
       resolved r = length (conflictBlocks analysis) \<and>
       strategy r = map previewStrategy (conflictBlocks analysis) \<and>
       (\<forall>s \<in> set (strategy r).
          s \<in> set [''Would choose theirs (ours empty)'', ''Would choose ours (theirs empty)'',
                   ''Would merge imports'', ''Would require manual resolution'']))"
    unfolding Let_def resolveFile_preview_smart totalConflicts_length
    using 1 by (simp del: set_simps)
  have B: "\<exists>path (w :: unit World) port.
      strategy (fst (resolveFile port ''smart'' True path w)) = [''Would require manual resolution''] \<and>
      resolved (fst (resolveFile port ''smart'' True path w)) = 1 \<and>
      resolved (fst (resolveFile port ''smart'' False path w)) = 0"
    using 2 by blast
  show ?thesis using A B by (rule conjI)
qed

text \<open>A file with one block that no rule resolves.\<close>

theorem preview_counts_every_block_witness:
  "resolved (fst (resolveFile (\<lambda>command s. (Returned [], s)) ''smart'' True ''a.txt''
      \<lparr>files = [''a.txt'' \<mapsto> ''<<<<<<< HEAD'' @ [NL] @ ''x-'' @ [NL] @ ''======='' @ [NL] @ ''y-'' @
                               [NL] @ ''>>>>>>> incoming''],
        repo = (), history = []\<rparr>)) = 1 \<and>
   strategy (fst (resolveFile (\<lambda>command s. (Returned [], s)) ''smart'' True ''a.txt''
      \<lparr>files = [''a.txt'' \<mapsto> ''<<<<<<< HEAD'' @ [NL] @ ''x-'' @ [NL] @ ''======='' @ [NL] @ ''y-'' @
                               [NL] @ ''>>>>>>> incoming''],
        repo = (), history = []\<rparr>)) = [''Would require manual resolution'']"
proof -
  let ?p = "(\<lambda>command s. (Returned [], s)) :: unit Port"
  let ?w = "\<lparr>files = [''a.txt'' \<mapsto> ''<<<<<<< HEAD'' @ [NL] @ ''x-'' @ [NL] @ ''======='' @ [NL] @ ''y-'' @
                               [NL] @ ''>>>>>>> incoming''],
        repo = (), history = []\<rparr> :: unit World"
  have b: "conflictBlocks (analyzeFileConflicts (files ?w) ''a.txt'') =
     [\<lparr>startLine = 0, endLine = 4, oursContent = ''x-'', theirsContent = ''y-''\<rparr>]"
    by (simp add: analyzeFileConflicts_def scanConflicts.simps startsWith_def slice_def)
  have p: "previewStrategy \<lparr>startLine = 0, endLine = 4, oursContent = ''x-'', theirsContent = ''y-''\<rparr> =
      ''Would require manual resolution''"
    by (simp add: previewStrategy_def isImportBlock_def importPattern_def trim_def isWhiteSpace_def
        startsWith_def)
  have "resolved (fst (resolveFile ?p ''smart'' True ''a.txt'' ?w)) =
          length (conflictBlocks (analyzeFileConflicts (files ?w) ''a.txt'')) \<and>
        strategy (fst (resolveFile ?p ''smart'' True ''a.txt'' ?w)) =
          map previewStrategy (conflictBlocks (analyzeFileConflicts (files ?w) ''a.txt''))"
    using preview_counts_every_block [where port = ?p and path = "''a.txt''" and w = ?w]
    unfolding Let_def by blast
  then show ?thesis unfolding b by (simp add: p)
qed

subsection \<open>Unknown sync strategy\<close>








subsection \<open>The conflict marker parser\<close>

lemma findMarkers_skip_ours:
  "\<forall>l \<in> set os. \<not> startsWith l ''======='' \<and> \<not> startsWith l ''>>>>>>>'' \<Longrightarrow>
   findMarkers (os @ r) j None = findMarkers r (j + length os) None"
  by (induction os arbitrary: j) auto

lemma findMarkers_skip_theirs:
  "\<forall>l \<in> set ts. \<not> startsWith l ''>>>>>>>'' \<Longrightarrow>
   findMarkers (ts @ r) j (Some k) = findMarkers r (j + length ts) (Some k)"
  by (induction ts arbitrary: j) auto

lemma findMarkers_region:
  assumes "\<forall>l \<in> set os. \<not> startsWith l ''======='' \<and> \<not> startsWith l ''>>>>>>>''"
    and "startsWith m ''======='' "
    and "\<forall>l \<in> set ts. \<not> startsWith l ''>>>>>>>''"
    and "startsWith e ''>>>>>>>''"
  shows "findMarkers (os @ m # ts @ e # r) j None =
         (Some (j + length os), Some (j + length os + length ts + 1))"
proof -
  have "findMarkers (os @ m # ts @ e # r) j None = findMarkers (m # ts @ e # r) (j + length os) None"
    using assms(1) by (rule findMarkers_skip_ours)
  also have "\<dots> = findMarkers (ts @ e # r) (j + length os + 1) (Some (j + length os))"
    using assms(2) by simp
  also have "\<dots> = findMarkers (e # r) (j + length os + 1 + length ts) (Some (j + length os))"
    using assms(3) by (rule findMarkers_skip_theirs)
  also have "\<dots> = (Some (j + length os), Some (j + length os + length ts + 1))"
    using assms(4) by simp
  finally show ?thesis .
qed

lemma scanConflicts_segments:
  "\<forall>seg \<in> set segs. wellFormedSegment seg \<Longrightarrow>
   scanConflicts (pre @ renderSegments segs) (length pre) acc =
     acc @ expectedBlocks (length pre) segs"
proof (induction segs arbitrary: pre acc)
  case Nil
  then show ?case by (simp add: renderSegments_def scanConflicts.simps)
next
  case (Cons seg segs)
  let ?rest = "renderSegments segs"
  have wf: "\<forall>seg \<in> set segs. wellFormedSegment seg" using Cons.prems by simp
  show ?case
  proof (cases seg)
    case (Plain l)
    have lines: "pre @ renderSegments (seg # segs) = (pre @ [l]) @ ?rest"
      by (simp add: renderSegments_def Plain)
    have l: "\<not> startsWith l ''<<<<<<<''" using Cons.prems Plain by simp
    have "scanConflicts ((pre @ [l]) @ ?rest) (length pre) acc =
          scanConflicts ((pre @ [l]) @ ?rest) (length (pre @ [l])) acc"
      using l by (subst scanConflicts.simps) simp
    also have "\<dots> = acc @ expectedBlocks (length (pre @ [l])) segs"
      using wf by (rule Cons.IH)
    finally show ?thesis unfolding lines by (simp add: Plain)
  next
    case (Region s os m ts e)
    let ?reg = "s # os @ m # ts @ [e]"
    let ?i = "length pre"
    let ?b = "\<lparr>startLine = ?i, endLine = ?i + length os + length ts + 2,
               oursContent = join [NL] os, theirsContent = join [NL] ts\<rparr>"
    have lines: "pre @ renderSegments (seg # segs) = (pre @ ?reg) @ ?rest"
      by (simp add: renderSegments_def Region)
    have w: "startsWith s ''<<<<<<<''"
      "\<forall>l \<in> set os. \<not> startsWith l ''======='' \<and> \<not> startsWith l ''>>>>>>>''"
      "startsWith m ''=======''" "\<forall>l \<in> set ts. \<not> startsWith l ''>>>>>>>''"
      "startsWith e ''>>>>>>>''"
      using Cons.prems Region by simp_all
    define ls where "ls = (pre @ ?reg) @ ?rest"
    define mid where "mid = ?i + 1 + length os"
    define en where "en = ?i + 1 + length os + length ts + 1"
    have len: "?i < length ls" and nth: "ls ! ?i = s" by (simp_all add: ls_def nth_append)
    have "drop (?i + 1) ls = os @ m # ts @ e # ?rest" by (simp add: ls_def)
    then have fm: "findMarkers (drop (?i + 1) ls) (?i + 1) None = (Some mid, Some en)"
      using findMarkers_region [OF w(2-5), of ?rest "?i + 1"] by (simp add: mid_def en_def)
    have s1: "slice ls (?i + 1) mid = os" by (simp add: slice_def ls_def mid_def)
    have s2: "slice ls (mid + 1) en = ts" by (simp add: slice_def ls_def mid_def en_def)
    have "scanConflicts ls ?i acc =
          scanConflicts ls (en + 1)
            (acc @ [\<lparr>startLine = ?i, endLine = en, oursContent = join [NL] os,
                      theirsContent = join [NL] ts\<rparr>])"
      by (subst scanConflicts.simps)
         (simp add: len nth fm [simplified] s1 [simplified] s2 [simplified] w(1))
    also have "en + 1 = length (pre @ ?reg)" by (simp add: en_def)
    also have "scanConflicts ls (length (pre @ ?reg))
            (acc @ [\<lparr>startLine = ?i, endLine = en, oursContent = join [NL] os,
                      theirsContent = join [NL] ts\<rparr>]) =
          (acc @ [\<lparr>startLine = ?i, endLine = en, oursContent = join [NL] os,
                      theirsContent = join [NL] ts\<rparr>]) @ expectedBlocks (length (pre @ ?reg)) segs"
      unfolding ls_def using wf by (rule Cons.IH)
    finally have F: "scanConflicts ls ?i acc =
          (acc @ [\<lparr>startLine = ?i, endLine = en, oursContent = join [NL] os,
                      theirsContent = join [NL] ts\<rparr>]) @ expectedBlocks (length (pre @ ?reg)) segs" .
    have e3: "?i + length os + length ts + 3 = length (pre @ ?reg)" by simp
    have e2: "?i + length os + length ts + 2 = en" by (simp add: en_def)
    show ?thesis
      unfolding Region expectedBlocks.simps e3 e2 using F unfolding ls_def
      by (simp add: renderSegments_def)
  qed
qed


lemma findMarkers_found:
  "findMarkers ls j m0 = (Some mid, Some e) \<Longrightarrow>
   j \<le> e \<and> e < j + length ls \<and> startsWith (ls ! (e - j)) ''>>>>>>>'' \<and>
   (case m0 of
      Some k \<Rightarrow> mid = k
    | None \<Rightarrow> j \<le> mid \<and> mid < e \<and> startsWith (ls ! (mid - j)) ''======='')"
proof (induction ls j m0 rule: findMarkers.induct)
  case (1 j middle)
  then show ?case by simp
next
  case (2 l ls j middle)
  show ?case
  proof (cases "startsWith l ''======='' \<and> middle = None")
    case True
    then have "findMarkers ls (j + 1) (Some j) = (Some mid, Some e)" using 2(3) by simp
    from 2(1) [OF True this] True show ?thesis by (auto simp: nth_Cons')
  next
    case False
    show ?thesis
    proof (cases "startsWith l ''>>>>>>>''")
      case True
      then show ?thesis using False 2(3) by (auto split: option.splits)
    next
      case notEnd: False
      then have "findMarkers ls (j + 1) middle = (Some mid, Some e)" using False 2(3) by auto
      from 2(2) [OF False notEnd this] show ?thesis
        by (auto simp: nth_Cons' split: option.splits)
    qed
  qed
qed

lemma scanConflicts_cases [case_names finished advance emit]:
  assumes "\<And>ls i acc. \<not> i < length ls \<Longrightarrow> scanConflicts ls i acc = acc \<Longrightarrow> P ls i acc"
    and "\<And>ls i acc. i < length ls \<Longrightarrow>
           \<not> startsWith (ls ! i) ''<<<<<<<'' \<or>
           (\<forall>mid e. findMarkers (drop (i + 1) ls) (i + 1) None \<noteq> (Some mid, Some e)) \<Longrightarrow>
           scanConflicts ls i acc = scanConflicts ls (i + 1) acc \<Longrightarrow>
           P ls (i + 1) acc \<Longrightarrow> P ls i acc"
    and "\<And>ls i acc mid e. i < length ls \<Longrightarrow> startsWith (ls ! i) ''<<<<<<<'' \<Longrightarrow>
           findMarkers (drop (i + 1) ls) (i + 1) None = (Some mid, Some e) \<Longrightarrow>
           scanConflicts ls i acc =
             scanConflicts ls (e + 1)
               (acc @ [\<lparr>startLine = i, endLine = e,
                         oursContent = join [NL] (slice ls (i + 1) mid),
                         theirsContent = join [NL] (slice ls (mid + 1) e)\<rparr>]) \<Longrightarrow>
           P ls (e + 1)
             (acc @ [\<lparr>startLine = i, endLine = e,
                       oursContent = join [NL] (slice ls (i + 1) mid),
                       theirsContent = join [NL] (slice ls (mid + 1) e)\<rparr>]) \<Longrightarrow>
           P ls i acc"
  shows "P ls i acc"
proof (induction ls i acc rule: scanConflicts.induct)
  case (1 ls i acc)
  show ?case
  proof (cases "i < length ls")
    case False
    then have "scanConflicts ls i acc = acc" by (subst scanConflicts.simps) simp
    with False show ?thesis by (rule assms(1))
  next
    case lt: True
    show ?thesis
    proof (cases "startsWith (ls ! i) ''<<<<<<<''")
      case False
      have "scanConflicts ls i acc = scanConflicts ls (i + 1) acc"
        using lt False by (subst scanConflicts.simps) simp
      moreover have "P ls (i + 1) acc" using lt False by (rule 1(4))
      ultimately show ?thesis using lt False assms(2) by blast
    next
      case st: True
      obtain mo eo where fm: "findMarkers (drop (i + 1) ls) (i + 1) None = (mo, eo)"
        by (cases "findMarkers (drop (i + 1) ls) (i + 1) None")
      show ?thesis
      proof (cases mo)
        case None
        have "scanConflicts ls i acc = scanConflicts ls (i + 1) acc"
          using lt st fm None by (subst scanConflicts.simps) simp
        moreover have "P ls (i + 1) acc" using lt st fm [symmetric] None by (rule 1(1))
        ultimately show ?thesis using lt fm None assms(2) [of i ls acc] by simp
      next
        case (Some mid)
        show ?thesis
        proof (cases eo)
          case None
          have "scanConflicts ls i acc = scanConflicts ls (i + 1) acc"
            using lt st fm Some None by (subst scanConflicts.simps) simp
          moreover have "P ls (i + 1) acc" using lt st fm [symmetric] Some None by (rule 1(2))
          ultimately show ?thesis using lt fm None assms(2) [of i ls acc] by simp
        next
          case (Some e)
          note eo = this
          let ?b = "\<lparr>startLine = i, endLine = e,
                     oursContent = join [NL] (slice ls (i + 1) mid),
                     theirsContent = join [NL] (slice ls (mid + 1) e)\<rparr>"
          have "scanConflicts ls i acc = scanConflicts ls (e + 1) (acc @ [?b])"
            using lt st fm \<open>mo = Some mid\<close> eo by (subst scanConflicts.simps) simp
          moreover have "P ls (e + 1) (acc @ [?b])"
            using lt st fm [symmetric] \<open>mo = Some mid\<close> eo by (rule 1(3))
          moreover have "findMarkers (drop (i + 1) ls) (i + 1) None = (Some mid, Some e)"
            using fm \<open>mo = Some mid\<close> eo by simp
          ultimately show ?thesis using lt st assms(3) by blast
        qed
      qed
    qed
  qed
qed

lemma scanConflicts_blocks:
  "b \<in> set (scanConflicts ls i acc) \<Longrightarrow> b \<in> set acc \<or> (i \<le> startLine b \<and> blockInFile ls b)"
proof (induction ls i acc rule: scanConflicts_cases)
  case (finished ls i acc)
  then show ?case by simp
next
  case (advance ls i acc)
  then show ?case by auto
next
  case (emit ls i acc mid e)
  let ?b = "\<lparr>startLine = i, endLine = e,
             oursContent = join [NL] (slice ls (i + 1) mid),
             theirsContent = join [NL] (slice ls (mid + 1) e)\<rparr>"
  have f: "i + 1 \<le> e" "e < i + 1 + length (drop (i + 1) ls)"
    "startsWith (drop (i + 1) ls ! (e - (i + 1))) ''>>>>>>>''"
    "i + 1 \<le> mid" "mid < e" "startsWith (drop (i + 1) ls ! (mid - (i + 1))) ''=======''"
    using findMarkers_found [OF emit(3)] by simp_all
  have elt: "e < length ls" using f(2) emit(1) by simp
  have "drop (i + 1) ls ! (e - (i + 1)) = ls ! e" "drop (i + 1) ls ! (mid - (i + 1)) = ls ! mid"
    using f(1,4,5) elt by simp_all
  then have good: "blockInFile ls ?b"
    using f emit(2) elt by (auto simp: blockInFile_def intro!: exI [of _ mid])
  from emit(5) emit(6) [unfolded emit(4)] emit(4)
  have "b \<in> set (acc @ [?b]) \<or> (e + 1 \<le> startLine b \<and> blockInFile ls b)" by simp
  then show ?case using good f(1) by auto
qed

lemma scanConflicts_ordered:
  "sorted_wrt (\<lambda>a b. endLine a < startLine b) acc \<Longrightarrow> \<forall>a \<in> set acc. endLine a < i \<Longrightarrow>
   sorted_wrt (\<lambda>a b. endLine a < startLine b) (scanConflicts ls i acc)"
proof (induction ls i acc rule: scanConflicts_cases)
  case (finished ls i acc)
  then show ?case by simp
next
  case (advance ls i acc)
  have "\<forall>a \<in> set acc. endLine a < i + 1" using advance.prems(2) by auto
  then show ?case using advance by simp
next
  case (emit ls i acc mid e)
  let ?b = "\<lparr>startLine = i, endLine = e,
             oursContent = join [NL] (slice ls (i + 1) mid),
             theirsContent = join [NL] (slice ls (mid + 1) e)\<rparr>"
  have "i + 1 \<le> e" using findMarkers_found [OF emit(3)] by simp
  then have "\<forall>a \<in> set (acc @ [?b]). endLine a < e + 1" using emit.prems(2) by auto
  moreover have "sorted_wrt (\<lambda>a b. endLine a < startLine b) (acc @ [?b])"
    using emit.prems by (simp add: sorted_wrt_append)
  ultimately show ?case using emit(4,5) by simp
qed

lemma scanConflicts_no_start:
  "\<forall>l \<in> set ls. \<not> startsWith l ''<<<<<<<'' \<Longrightarrow> scanConflicts ls i acc = acc"
proof (induction ls i acc rule: scanConflicts_cases)
  case (finished ls i acc)
  then show ?case by simp
next
  case (advance ls i acc)
  then show ?case by simp
next
  case (emit ls i acc mid e)
  then show ?case by auto
qed


lemma length_expectedBlocks: "length (expectedBlocks k segs) = length (filter isRegion segs)"
  by (induction k segs rule: expectedBlocks.induct) auto

lemma scanConflicts_dangling:
  assumes "(\<forall>j. i < j \<and> j < length ls \<longrightarrow> \<not> startsWith (ls ! j) ''======='') \<or>
           (\<forall>j. i < j \<and> j < length ls \<longrightarrow> \<not> startsWith (ls ! j) ''>>>>>>>'')"
  shows "findMarkers (drop (i + 1) ls) (i + 1) None \<noteq> (Some mid, Some e)"
proof
  assume fm: "findMarkers (drop (i + 1) ls) (i + 1) None = (Some mid, Some e)"
  have f: "i + 1 \<le> e" "e < i + 1 + length (drop (i + 1) ls)"
    "startsWith (drop (i + 1) ls ! (e - (i + 1))) ''>>>>>>>''"
    "i + 1 \<le> mid" "mid < e" "startsWith (drop (i + 1) ls ! (mid - (i + 1))) ''=======''"
    using findMarkers_found [OF fm] by simp_all
  have elt: "e < length ls" using f(1,2) by (cases "i + 1 \<le> length ls") auto
  have "drop (i + 1) ls ! (e - (i + 1)) = ls ! e" "drop (i + 1) ls ! (mid - (i + 1)) = ls ! mid"
    using f(1,4,5) elt by simp_all
  then have "startsWith (ls ! e) ''>>>>>>>''" "startsWith (ls ! mid) ''=======''"
    using f(3,6) by simp_all
  moreover have "i < e" "i < mid" "mid < length ls" using f(1,4,5) elt by simp_all
  ultimately show False using assms elt by blast
qed

text \<open>
  \<^bold>\<open>C2\<close>, as the code has it. For every file content: each parsed block has its start
  line before its end line, a start marker at the first, an end marker at the second and
  a middle marker between them, and the blocks come in document order without overlap.
  When the lines of the file are \<open>N\<close> well-formed regions with plain lines around them (in
  a well-formed region no end marker comes before the region's middle marker), the parser
  returns exactly these \<open>N\<close> blocks, each with the lines between its markers as ours and
  theirs text. A start marker at line \<open>i\<close> with no middle marker or no end marker after
  it gives no block starting at \<open>i\<close>: the scan goes on at line \<open>i + 1\<close>.
\<close>

theorem parse_wellformed_regions:
  "fs path = Some content \<longrightarrow>
   (let blocks = conflictBlocks (analyzeFileConflicts fs path); ls = splitNL content in
      (\<forall>b \<in> set blocks. startLine b < endLine b \<and> blockInFile ls b) \<and>
      sorted_wrt (\<lambda>a b. endLine a < startLine b) blocks \<and>
      ((\<forall>seg \<in> set segs. wellFormedSegment seg) \<and> ls = renderSegments segs \<longrightarrow>
         blocks = expectedBlocks 0 segs \<and>
         totalConflicts (analyzeFileConflicts fs path) = length (filter isRegion segs)) \<and>
      ((\<forall>j. i < j \<and> j < length ls \<longrightarrow> \<not> startsWith (ls ! j) ''======='') \<or>
       (\<forall>j. i < j \<and> j < length ls \<longrightarrow> \<not> startsWith (ls ! j) ''>>>>>>>'') \<longrightarrow>
         (\<forall>b \<in> set blocks. startLine b \<noteq> i) \<and>
         (i < length ls \<longrightarrow> scanConflicts ls i acc = scanConflicts ls (i + 1) acc)))"
proof
  assume c: "fs path = Some content"
  let ?ls = "splitNL content"
  let ?blocks = "conflictBlocks (analyzeFileConflicts fs path)"
  have blocks: "?blocks = scanConflicts ?ls 0 []"
    and total: "totalConflicts (analyzeFileConflicts fs path) = length ?blocks"
    using c by (simp_all add: analyzeFileConflicts_def Let_def)
  have inFile: "\<forall>b \<in> set ?blocks. blockInFile ?ls b"
    unfolding blocks using scanConflicts_blocks [of _ ?ls 0 "[]"] by auto
  then have A: "\<forall>b \<in> set ?blocks. startLine b < endLine b \<and> blockInFile ?ls b"
    by (auto simp: blockInFile_def)
  have B: "sorted_wrt (\<lambda>a b. endLine a < startLine b) ?blocks"
    unfolding blocks by (rule scanConflicts_ordered) simp_all
  have C: "?blocks = expectedBlocks 0 segs \<and>
           totalConflicts (analyzeFileConflicts fs path) = length (filter isRegion segs)"
    if "\<forall>seg \<in> set segs. wellFormedSegment seg" "?ls = renderSegments segs"
  proof -
    have "scanConflicts ([] @ renderSegments segs) (length ([] :: string list)) [] =
          [] @ expectedBlocks (length ([] :: string list)) segs"
      using that(1) by (rule scanConflicts_segments)
    then have "?blocks = expectedBlocks 0 segs" using that(2) blocks by simp
    then show ?thesis using total by (simp add: length_expectedBlocks)
  qed
  have D: "(\<forall>b \<in> set ?blocks. startLine b \<noteq> i) \<and>
         (i < length ?ls \<longrightarrow> scanConflicts ?ls i acc = scanConflicts ?ls (i + 1) acc)"
    if d: "(\<forall>j. i < j \<and> j < length ?ls \<longrightarrow> \<not> startsWith (?ls ! j) ''======='') \<or>
       (\<forall>j. i < j \<and> j < length ?ls \<longrightarrow> \<not> startsWith (?ls ! j) ''>>>>>>>'')"
  proof
    show "\<forall>b \<in> set ?blocks. startLine b \<noteq> i"
    proof
      fix b assume "b \<in> set ?blocks"
      then have b: "blockInFile ?ls b" using inFile by blast
      then obtain m where "startLine b < m" "m < endLine b" "startsWith (?ls ! m) ''=======''"
        "endLine b < length ?ls" "startsWith (?ls ! endLine b) ''>>>>>>>''"
        by (auto simp: blockInFile_def)
      then have "startLine b = i \<Longrightarrow>
          (i < m \<and> m < length ?ls \<and> startsWith (?ls ! m) ''======='') \<and>
          (i < endLine b \<and> endLine b < length ?ls \<and> startsWith (?ls ! endLine b) ''>>>>>>>'')"
        by auto
      then show "startLine b \<noteq> i" using d by blast
    qed
    show "i < length ?ls \<longrightarrow> scanConflicts ?ls i acc = scanConflicts ?ls (i + 1) acc"
    proof
      assume lt: "i < length ?ls"
      obtain mo eo where fm: "findMarkers (drop (i + 1) ?ls) (i + 1) None = (mo, eo)"
        by (cases "findMarkers (drop (i + 1) ?ls) (i + 1) None")
      have "mo = None \<or> eo = None"
        using scanConflicts_dangling [OF d, of _ _] fm by (cases mo; cases eo) auto
      then show "scanConflicts ?ls i acc = scanConflicts ?ls (i + 1) acc"
        using lt by (subst scanConflicts.simps) (auto simp: fm [simplified] split: option.splits)
    qed
  qed
  show "let blocks = ?blocks; ls = ?ls in
      (\<forall>b \<in> set blocks. startLine b < endLine b \<and> blockInFile ls b) \<and>
      sorted_wrt (\<lambda>a b. endLine a < startLine b) blocks \<and>
      ((\<forall>seg \<in> set segs. wellFormedSegment seg) \<and> ls = renderSegments segs \<longrightarrow>
         blocks = expectedBlocks 0 segs \<and>
         totalConflicts (analyzeFileConflicts fs path) = length (filter isRegion segs)) \<and>
      ((\<forall>j. i < j \<and> j < length ls \<longrightarrow> \<not> startsWith (ls ! j) ''======='') \<or>
       (\<forall>j. i < j \<and> j < length ls \<longrightarrow> \<not> startsWith (ls ! j) ''>>>>>>>'') \<longrightarrow>
         (\<forall>b \<in> set blocks. startLine b \<noteq> i) \<and>
         (i < length ls \<longrightarrow> scanConflicts ls i acc = scanConflicts ls (i + 1) acc))"
    unfolding Let_def
  proof (intro conjI)
    show "\<forall>b \<in> set ?blocks. startLine b < endLine b \<and> blockInFile ?ls b" by (rule A)
    show "sorted_wrt (\<lambda>a b. endLine a < startLine b) ?blocks" by (rule B)
    show "(\<forall>seg \<in> set segs. wellFormedSegment seg) \<and> ?ls = renderSegments segs \<longrightarrow>
         ?blocks = expectedBlocks 0 segs \<and>
         totalConflicts (analyzeFileConflicts fs path) = length (filter isRegion segs)"
      using C by (intro impI) (elim conjE)
    show "(\<forall>j. i < j \<and> j < length ?ls \<longrightarrow> \<not> startsWith (?ls ! j) ''======='') \<or>
       (\<forall>j. i < j \<and> j < length ?ls \<longrightarrow> \<not> startsWith (?ls ! j) ''>>>>>>>'') \<longrightarrow>
         (\<forall>b \<in> set ?blocks. startLine b \<noteq> i) \<and>
         (i < length ?ls \<longrightarrow> scanConflicts ?ls i acc = scanConflicts ?ls (i + 1) acc)"
      using D by (intro impI)
  qed
qed


text \<open>
  A file with two regions, the second with an empty ours side, and a file whose only
  start marker is never closed.
\<close>

theorem parse_wellformed_regions_witness:
  "conflictBlocks (analyzeFileConflicts
      [''a.txt'' \<mapsto> join [NL] [''intro'', ''<<<<<<< HEAD'', ''ours1'', ''======='', ''theirs1'',
                                 ''>>>>>>> b'', ''between'', ''<<<<<<< HEAD'', ''======='', ''t2'',
                                 ''>>>>>>> c'']] ''a.txt'') =
     [\<lparr>startLine = 1, endLine = 5, oursContent = ''ours1'', theirsContent = ''theirs1''\<rparr>,
      \<lparr>startLine = 7, endLine = 10, oursContent = [], theirsContent = ''t2''\<rparr>] \<and>
   totalConflicts (analyzeFileConflicts
      [''a.txt'' \<mapsto> join [NL] [''intro'', ''<<<<<<< HEAD'', ''ours1'', ''======='', ''theirs1'',
                                 ''>>>>>>> b'', ''between'', ''<<<<<<< HEAD'', ''======='', ''t2'',
                                 ''>>>>>>> c'']] ''a.txt'') = 2 \<and>
   list_all (\<lambda>b. startLine b \<noteq> 0)
     (conflictBlocks (analyzeFileConflicts
        [''b.txt'' \<mapsto> join [NL] [''<<<<<<< HEAD'', ''ours only'']] ''b.txt''))"
proof -
  let ?content = "join [NL] [''intro'', ''<<<<<<< HEAD'', ''ours1'', ''======='', ''theirs1'',
                                 ''>>>>>>> b'', ''between'', ''<<<<<<< HEAD'', ''======='', ''t2'',
                                 ''>>>>>>> c'']"
  let ?segs = "[Plain ''intro'', Region ''<<<<<<< HEAD'' [''ours1''] ''======='' [''theirs1''] ''>>>>>>> b'',
                Plain ''between'', Region ''<<<<<<< HEAD'' [] ''======='' [''t2''] ''>>>>>>> c'']"
  have wf: "\<forall>seg \<in> set ?segs. wellFormedSegment seg" by (simp add: startsWith_def)
  have r: "splitNL ?content = renderSegments ?segs" by (simp add: renderSegments_def)
  have 1: "conflictBlocks (analyzeFileConflicts [''a.txt'' \<mapsto> ?content] ''a.txt'') =
             expectedBlocks 0 ?segs \<and>
           totalConflicts (analyzeFileConflicts [''a.txt'' \<mapsto> ?content] ''a.txt'') =
             length (filter isRegion ?segs)"
    using parse_wellformed_regions [where fs = "[''a.txt'' \<mapsto> ?content]" and path = "''a.txt''"
        and content = ?content and segs = ?segs] wf r
    unfolding Let_def by (simp del: join.simps splitNL.simps)
  let ?c2 = "join [NL] [''<<<<<<< HEAD'', ''ours only'']"
  have d: "\<forall>j. 0 < j \<and> j < length (splitNL ?c2) \<longrightarrow> \<not> startsWith (splitNL ?c2 ! j) ''=======''"
    by (simp add: startsWith_def)
  have 2: "\<forall>b \<in> set (conflictBlocks (analyzeFileConflicts [''b.txt'' \<mapsto> ?c2] ''b.txt'')).
             startLine b \<noteq> 0"
    using parse_wellformed_regions [where fs = "[''b.txt'' \<mapsto> ?c2]" and path = "''b.txt''"
        and content = ?c2 and i = 0] d
    unfolding Let_def by (simp del: join.simps splitNL.simps)
  show ?thesis using 1 2 by (simp add: list_all_iff del: splitNL.simps)
qed

text \<open>
  Against \<^bold>\<open>C2\<close> as stated, which counts a region as well-formed when the start marker
  is followed by a first middle marker and, after that, a first end marker: here the
  start marker of line 0 is followed by the first middle marker at line 2 and the first
  end marker after it at line 3, but an end marker stands at line 1, and the parser
  returns no block.
\<close>

theorem parse_first_markers_counterexample:
  "splitNL (join [NL] [''<<<<<<< HEAD'', ''>>>>>>> stray'', ''======='', ''>>>>>>> b'']) =
     [''<<<<<<< HEAD'', ''>>>>>>> stray'', ''======='', ''>>>>>>> b''] \<and>
   startsWith ''<<<<<<< HEAD'' ''<<<<<<<'' \<and>
   \<not> startsWith ''>>>>>>> stray'' ''======='' \<and>
   startsWith ''======='' ''======='' \<and>
   startsWith ''>>>>>>> b'' ''>>>>>>>'' \<and>
   conflictBlocks (analyzeFileConflicts
      [''a.txt'' \<mapsto> join [NL] [''<<<<<<< HEAD'', ''>>>>>>> stray'', ''======='', ''>>>>>>> b'']]
      ''a.txt'') = []"
  by (simp add: analyzeFileConflicts_def scanConflicts.simps startsWith_def)

subsection \<open>Splicing the resolutions\<close>

lemma splitNL_nonempty: "splitNL s \<noteq> []"
  by (induction s) (auto split: list.splits)

lemma splitNL_no_nl: "l \<in> set (splitNL s) \<Longrightarrow> NL \<notin> set l"
  by (induction s arbitrary: l) (auto split: list.splits if_splits)

lemma splitNL_id: "NL \<notin> set l \<Longrightarrow> splitNL l = [l]"
  by (induction l) auto

lemma splitNL_append: "splitNL (a @ NL # b) = splitNL a @ splitNL b"
proof (induction a)
  case Nil
  then show ?case by simp
next
  case (Cons c a)
  obtain l ls where "splitNL a = l # ls" using splitNL_nonempty [of a] by (cases "splitNL a") auto
  with Cons show ?case by simp
qed

lemma splitNL_join: "xs \<noteq> [] \<Longrightarrow> splitNL (join [NL] xs) = concat (map splitNL xs)"
proof (induction "[NL]" xs rule: join.induct)
  case 1
  then show ?case by simp
next
  case (2 x)
  then show ?case by simp
next
  case (3 x y ys)
  have "splitNL (join [NL] (x # y # ys)) = splitNL (x @ NL # join [NL] (y # ys))" by simp
  also have "\<dots> = splitNL x @ splitNL (join [NL] (y # ys))" by (rule splitNL_append)
  finally show ?case using 3 by simp
qed

lemma concat_splitNL_id: "\<forall>l \<in> set xs. NL \<notin> set l \<Longrightarrow> concat (map splitNL xs) = xs"
  by (induction xs) (auto simp: splitNL_id)

lemma splitNL_join_lines:
  "\<forall>l \<in> set xs. NL \<notin> set l \<Longrightarrow> set (splitNL (join [NL] xs)) \<subseteq> set xs \<union> {[]}"
proof (cases "xs = []")
  case True
  then show ?thesis by simp
next
  case False
  assume "\<forall>l \<in> set xs. NL \<notin> set l"
  then show ?thesis using False by (auto simp: splitNL_join concat_splitNL_id)
qed


lemma not_marker_Nil: "\<not> isMarkerLine []"
  by (simp add: isMarkerLine_def startsWith_def)

lemma set_uniqueInOrder: "set (uniqueInOrder xs) = set xs"
  by (simp add: uniqueInOrder_def)

lemma mergeImports_lines:
  "set (splitNL (mergeImports ours theirs)) \<subseteq> set (splitNL ours) \<union> set (splitNL theirs) \<union> {[]}"
proof -
  let ?xs = "sort (uniqueInOrder (filter (\<lambda>l. trim l \<noteq> []) (splitNL ours) @
                                   filter (\<lambda>l. trim l \<noteq> []) (splitNL theirs)))"
  have s: "set ?xs \<subseteq> set (splitNL ours) \<union> set (splitNL theirs)"
    by (auto simp: set_uniqueInOrder)
  then have "\<forall>l \<in> set ?xs. NL \<notin> set l" using splitNL_no_nl by blast
  then have "set (splitNL (join [NL] ?xs)) \<subseteq> set ?xs \<union> {[]}" by (rule splitNL_join_lines)
  then show ?thesis using s unfolding mergeImports_def Let_def by blast
qed

lemma smartResolution_cases:
  "fst (smartResolution ours theirs) = ours \<or> fst (smartResolution ours theirs) = theirs \<or>
   fst (smartResolution ours theirs) = mergeImports ours theirs \<or>
   fst (smartResolution ours theirs) = ours @ NL # theirs \<or>
   fst (smartResolution ours theirs) = []"
  by (simp add: smartResolution_def)

lemma smartResolution_lines:
  "set (splitNL (fst (smartResolution ours theirs))) \<subseteq>
     set (splitNL ours) \<union> set (splitNL theirs) \<union> {[]}"
  using smartResolution_cases [of ours theirs] mergeImports_lines [of ours theirs]
  by (auto simp: splitNL_append)

lemma resolution_no_marker:
  assumes "\<forall>l \<in> set os. \<not> isMarkerLine l \<and> NL \<notin> set l"
    and "\<forall>l \<in> set ts. \<not> isMarkerLine l \<and> NL \<notin> set l"
    and "l \<in> set (splitNL (fst (smartResolution (join [NL] os) (join [NL] ts))))"
  shows "\<not> isMarkerLine l"
proof -
  have "l \<in> set (splitNL (join [NL] os)) \<union> set (splitNL (join [NL] ts)) \<union> {[]}"
    using assms(3) smartResolution_lines by blast
  moreover have "set (splitNL (join [NL] os)) \<subseteq> set os \<union> {[]}"
    using assms(1) by (intro splitNL_join_lines) simp
  moreover have "set (splitNL (join [NL] ts)) \<subseteq> set ts \<union> {[]}"
    using assms(2) by (intro splitNL_join_lines) simp
  ultimately have "l \<in> set os \<or> l \<in> set ts \<or> l = []" by blast
  then show ?thesis using assms(1,2) not_marker_Nil by blast
qed

lemma resolvedLines_no_marker:
  "\<forall>seg \<in> set segs. cleanSegment seg \<Longrightarrow> \<forall>l \<in> set (renderSegments segs). NL \<notin> set l \<Longrightarrow>
   \<forall>l \<in> set (resolvedLines segs). \<not> isMarkerLine l"
proof (induction segs rule: resolvedLines.induct)
  case 1
  then show ?case by simp
next
  case (2 l segs)
  then show ?case by (simp add: renderSegments_def)
next
  case (3 s os m ts e segs)
  have rest: "\<forall>l \<in> set (resolvedLines segs). \<not> isMarkerLine l"
    using 3 by (simp add: renderSegments_def)
  have "\<forall>l \<in> set os. \<not> isMarkerLine l \<and> NL \<notin> set l"
       "\<forall>l \<in> set ts. \<not> isMarkerLine l \<and> NL \<notin> set l"
    using 3(2,3) by (auto simp: renderSegments_def)
  then have "\<forall>l \<in> set (splitNL (fst (smartResolution (join [NL] os) (join [NL] ts)))).
               \<not> isMarkerLine l"
    using resolution_no_marker by blast
  with rest show ?case by auto
qed

lemma splicedLines_split:
  "\<forall>l \<in> set (renderSegments segs). NL \<notin> set l \<Longrightarrow>
   concat (map splitNL (splicedLines segs)) = resolvedLines segs"
  by (induction segs rule: splicedLines.induct) (auto simp: renderSegments_def splitNL_id)

lemma splicedLines_nonempty: "segs \<noteq> [] \<Longrightarrow> splicedLines segs \<noteq> []"
  by (cases segs rule: splicedLines.cases) auto

lemma clean_wellFormed: "cleanSegment seg \<Longrightarrow> wellFormedSegment seg"
  by (cases seg) (auto simp: isMarkerLine_def)


lemma fold_resolveBlock_segments:
  "\<forall>seg \<in> set segs. cleanSegment seg \<Longrightarrow>
   \<exists>sts. fold resolveBlock (rev (expectedBlocks (length pre) segs))
            (pre @ renderSegments segs, n, st) =
          (pre @ splicedLines segs, n + length (filter isRegion segs), sts)"
proof (induction segs arbitrary: pre)
  case Nil
  then show ?case by (simp add: renderSegments_def)
next
  case (Cons seg segs)
  have cl: "\<forall>seg \<in> set segs. cleanSegment seg" using Cons.prems by simp
  show ?case
  proof (cases seg)
    case (Plain l)
    obtain sts where
      "fold resolveBlock (rev (expectedBlocks (length (pre @ [l])) segs))
         ((pre @ [l]) @ renderSegments segs, n, st) =
       ((pre @ [l]) @ splicedLines segs, n + length (filter isRegion segs), sts)"
      using Cons.IH [OF cl, of "pre @ [l]"] by blast
    then show ?thesis by (auto simp: Plain renderSegments_def)
  next
    case (Region s os m ts e)
    let ?reg = "s # os @ m # ts @ [e]"
    let ?res = "fst (smartResolution (join [NL] os) (join [NL] ts))"
    let ?b = "\<lparr>startLine = length pre, endLine = length pre + length os + length ts + 2,
               oursContent = join [NL] os, theirsContent = join [NL] ts\<rparr>"
    have res: "?res \<noteq> []" using Cons.prems Region by simp
    have k: "length pre + length os + length ts + 3 = length (pre @ ?reg)" by simp
    obtain sts where later:
      "fold resolveBlock (rev (expectedBlocks (length (pre @ ?reg)) segs))
         ((pre @ ?reg) @ renderSegments segs, n, st) =
       ((pre @ ?reg) @ splicedLines segs, n + length (filter isRegion segs), sts)"
      using Cons.IH [OF cl, of "pre @ ?reg"] by blast
    have sp: "splice ((pre @ ?reg) @ splicedLines segs) (startLine ?b)
                (endLine ?b + 1 - startLine ?b) ?res =
              pre @ ?res # splicedLines segs"
      by (simp add: splice_def numeral_3_eq_3)
    have step: "resolveBlock ?b ((pre @ ?reg) @ splicedLines segs,
                  n + length (filter isRegion segs), sts) =
          (pre @ ?res # splicedLines segs, n + length (filter isRegion segs) + 1,
           sts @ [''Line '' @ showNat (startLine ?b + 1) @ '': '' @
                  snd (smartResolution (join [NL] os) (join [NL] ts))])"
      unfolding resolveBlock_def using res sp
      by (simp add: split_def del: append_assoc)
    have lines: "pre @ renderSegments (seg # segs) = (pre @ ?reg) @ renderSegments segs"
      by (simp add: renderSegments_def Region)
    have "fold resolveBlock (rev (expectedBlocks (length pre) (seg # segs)))
            (pre @ renderSegments (seg # segs), n, st) =
          resolveBlock ?b (fold resolveBlock (rev (expectedBlocks (length (pre @ ?reg)) segs))
            ((pre @ ?reg) @ renderSegments segs, n, st))"
      unfolding Region expectedBlocks.simps k by (simp add: renderSegments_def)
    also have "\<dots> = (pre @ ?res # splicedLines segs, n + length (filter isRegion segs) + 1,
           sts @ [''Line '' @ showNat (startLine ?b + 1) @ '': '' @
                  snd (smartResolution (join [NL] os) (join [NL] ts))])"
      unfolding later by (rule step)
    finally show ?thesis by (auto simp: Region)
  qed
qed


lemma resolvedLines_plain:
  "filter isRegion segs = [] \<Longrightarrow> resolvedLines segs = renderSegments segs"
  by (induction segs rule: resolvedLines.induct) (auto simp: renderSegments_def)

text \<open>
  \<^bold>\<open>C4\<close>, as the code has it. Take a file whose lines are conflict regions and plain
  lines, with marker lines only where the regions need them (no plain line and no line of
  an ours or theirs side starts with a marker), and whose blocks are all resolved by the
  smart resolution. Splicing from the last block to the first keeps the recorded line
  numbers of the earlier blocks valid: every block is resolved, the content of the file
  afterwards is the original with each region replaced by its resolution, no line of it
  starts with a conflict marker, and parsing it again yields no block.
\<close>

theorem resolve_clean_file:
  "(\<forall>seg \<in> set segs. cleanSegment seg) \<and> files w path = Some content \<and>
   splitNL content = renderSegments segs \<longrightarrow>
   (case applySmartResolution path (conflictBlocks (analyzeFileConflicts (files w) path)) w of
      (r, w1) \<Rightarrow>
        resolved r = length (filter isRegion segs) \<and>
        (\<exists>content1. files w1 path = Some content1 \<and> splitNL content1 = resolvedLines segs) \<and>
        (\<forall>l \<in> set (resolvedLines segs). \<not> isMarkerLine l) \<and>
        conflictBlocks (analyzeFileConflicts (files w1) path) = [])"
proof
  assume a: "(\<forall>seg \<in> set segs. cleanSegment seg) \<and> files w path = Some content \<and>
   splitNL content = renderSegments segs"
  then have clean: "\<forall>seg \<in> set segs. cleanSegment seg" and f: "files w path = Some content"
    and r: "splitNL content = renderSegments segs" by simp_all
  let ?n = "length (filter isRegion segs)"
  have wf: "\<forall>seg \<in> set segs. wellFormedSegment seg" using clean clean_wellFormed by blast
  have "scanConflicts ([] @ renderSegments segs) (length ([] :: string list)) [] =
        [] @ expectedBlocks (length ([] :: string list)) segs"
    using wf by (rule scanConflicts_segments)
  then have blocks: "conflictBlocks (analyzeFileConflicts (files w) path) = expectedBlocks 0 segs"
    using f r by (simp add: analyzeFileConflicts_def Let_def)
  have nl: "\<forall>l \<in> set (renderSegments segs). NL \<notin> set l"
    using splitNL_no_nl [of _ content] r by auto
  have ne: "segs \<noteq> []" using splitNL_nonempty [of content] r by (auto simp: renderSegments_def)
  obtain sts where
    "fold resolveBlock (rev (expectedBlocks (length ([] :: string list)) segs))
       ([] @ renderSegments segs, 0, []) = ([] @ splicedLines segs, 0 + ?n, sts)"
    using fold_resolveBlock_segments [OF clean, of "[]" 0 "[]"] by blast
  then have fo: "fold resolveBlock (rev (expectedBlocks 0 segs)) (splitNL content, 0, []) =
       (splicedLines segs, ?n, sts)"
    using r by simp
  define w1 where "w1 = (if ?n > 0 then writeFileSync w path (join [NL] (splicedLines segs)) else w)"
  have ap: "applySmartResolution path (conflictBlocks (analyzeFileConflicts (files w) path)) w =
            (\<lparr>resolved = ?n, strategy = sts\<rparr>, w1)"
    unfolding blocks by (simp add: applySmartResolution_def f fo w1_def)
  have no: "\<forall>l \<in> set (resolvedLines segs). \<not> isMarkerLine l"
    using clean nl by (rule resolvedLines_no_marker)
  have ex: "\<exists>content1. files w1 path = Some content1 \<and> splitNL content1 = resolvedLines segs"
  proof (cases "?n > 0")
    case True
    have "splitNL (join [NL] (splicedLines segs)) = resolvedLines segs"
      using ne nl by (simp add: splitNL_join splicedLines_nonempty splicedLines_split)
    then show ?thesis using True by (simp add: w1_def writeFileSync_def)
  next
    case False
    then have "resolvedLines segs = renderSegments segs" by (simp add: resolvedLines_plain)
    then show ?thesis using False f r by (simp add: w1_def)
  qed
  then obtain content1 where c1: "files w1 path = Some content1"
    "splitNL content1 = resolvedLines segs" by blast
  have "\<forall>l \<in> set (splitNL content1). \<not> startsWith l ''<<<<<<<''"
    using no c1(2) by (auto simp: isMarkerLine_def)
  then have "scanConflicts (splitNL content1) 0 [] = []" by (rule scanConflicts_no_start)
  then have final: "conflictBlocks (analyzeFileConflicts (files w1) path) = []"
    using c1(1) by (simp add: analyzeFileConflicts_def Let_def)
  show "case applySmartResolution path (conflictBlocks (analyzeFileConflicts (files w) path)) w of
      (r, w1) \<Rightarrow>
        resolved r = length (filter isRegion segs) \<and>
        (\<exists>content1. files w1 path = Some content1 \<and> splitNL content1 = resolvedLines segs) \<and>
        (\<forall>l \<in> set (resolvedLines segs). \<not> isMarkerLine l) \<and>
        conflictBlocks (analyzeFileConflicts (files w1) path) = []"
    unfolding ap using ex no final by simp
qed


text \<open>
  A file with two regions, one resolved by rule 1 and one as combined additions.
\<close>

theorem resolve_clean_file_witness:
  "resolved (fst (applySmartResolution ''a.txt''
      (conflictBlocks (analyzeFileConflicts
         [''a.txt'' \<mapsto> join [NL] [''intro'', ''<<<<<<< HEAD'', ''======='', ''theirs1'', ''>>>>>>> b'',
                                    ''between'', ''<<<<<<< HEAD'', ''alpha'', ''======='', ''beta'',
                                    ''>>>>>>> c'', ''end'']] ''a.txt''))
      \<lparr>files = [''a.txt'' \<mapsto> join [NL] [''intro'', ''<<<<<<< HEAD'', ''======='', ''theirs1'',
                                    ''>>>>>>> b'', ''between'', ''<<<<<<< HEAD'', ''alpha'', ''======='',
                                    ''beta'', ''>>>>>>> c'', ''end'']],
        repo = (), history = []\<rparr>)) = 2 \<and>
   conflictBlocks (analyzeFileConflicts
     (files (snd (applySmartResolution ''a.txt''
      (conflictBlocks (analyzeFileConflicts
         [''a.txt'' \<mapsto> join [NL] [''intro'', ''<<<<<<< HEAD'', ''======='', ''theirs1'', ''>>>>>>> b'',
                                    ''between'', ''<<<<<<< HEAD'', ''alpha'', ''======='', ''beta'',
                                    ''>>>>>>> c'', ''end'']] ''a.txt''))
      \<lparr>files = [''a.txt'' \<mapsto> join [NL] [''intro'', ''<<<<<<< HEAD'', ''======='', ''theirs1'',
                                    ''>>>>>>> b'', ''between'', ''<<<<<<< HEAD'', ''alpha'', ''======='',
                                    ''beta'', ''>>>>>>> c'', ''end'']],
        repo = (), history = []\<rparr>))) ''a.txt'') = []"
proof -
  let ?content = "join [NL] [''intro'', ''<<<<<<< HEAD'', ''======='', ''theirs1'', ''>>>>>>> b'',
                                    ''between'', ''<<<<<<< HEAD'', ''alpha'', ''======='', ''beta'',
                                    ''>>>>>>> c'', ''end'']"
  let ?w = "\<lparr>files = [''a.txt'' \<mapsto> ?content], repo = (), history = []\<rparr> :: unit World"
  let ?segs = "[Plain ''intro'', Region ''<<<<<<< HEAD'' [] ''======='' [''theirs1''] ''>>>>>>> b'',
                Plain ''between'', Region ''<<<<<<< HEAD'' [''alpha''] ''======='' [''beta''] ''>>>>>>> c'',
                Plain ''end'']"
  have 1: "fst (smartResolution [] ''theirs1'') \<noteq> []"
    by (simp add: smartResolution_def trim_def isWhiteSpace_def)
  have 2: "fst (smartResolution ''alpha'' ''beta'') \<noteq> []"
    by (simp add: smartResolution_def trim_def isWhiteSpace_def startsWith_def isImportBlock_def
        importPattern_def isSimpleAddition_def)
  have clean: "\<forall>seg \<in> set ?segs. cleanSegment seg"
    using 1 2 by (simp add: isMarkerLine_def startsWith_def)
  have r: "splitNL ?content = renderSegments ?segs" by (simp add: renderSegments_def)
  have f: "files ?w ''a.txt'' = Some ?content" by simp
  have "case applySmartResolution ''a.txt''
          (conflictBlocks (analyzeFileConflicts (files ?w) ''a.txt'')) ?w of
      (r, w1) \<Rightarrow>
        resolved r = length (filter isRegion ?segs) \<and>
        (\<exists>content1. files w1 ''a.txt'' = Some content1 \<and> splitNL content1 = resolvedLines ?segs) \<and>
        (\<forall>l \<in> set (resolvedLines ?segs). \<not> isMarkerLine l) \<and>
        conflictBlocks (analyzeFileConflicts (files w1) ''a.txt'') = []"
    by (rule resolve_clean_file [where segs = ?segs and w = ?w and path = "''a.txt''"
          and content = ?content, THEN mp])
       (intro conjI, rule clean, rule f, rule r)
  then have "resolved (fst (applySmartResolution ''a.txt''
          (conflictBlocks (analyzeFileConflicts (files ?w) ''a.txt'')) ?w)) =
        length (filter isRegion ?segs) \<and>
      conflictBlocks (analyzeFileConflicts (files (snd (applySmartResolution ''a.txt''
          (conflictBlocks (analyzeFileConflicts (files ?w) ''a.txt'')) ?w))) ''a.txt'') = []"
    by (simp add: split_def)
  then show ?thesis by simp
qed

text \<open>
  Against \<^bold>\<open>C4\<close> as stated: the file has one block, which rule 1 resolves to its theirs
  side; that side carries a start marker and a middle marker, and a stray end marker
  follows the block. The rewritten content starts with a start marker and parses to one
  block again.
\<close>

theorem resolve_reparse_counterexample:
  "conflictBlocks (analyzeFileConflicts
      [''a.txt'' \<mapsto> join [NL] [''<<<<<<< a'', ''======='', ''<<<<<<< b'', ''======='', ''x'',
                                 ''>>>>>>> c'', ''>>>>>>> d'']] ''a.txt'') =
     [\<lparr>startLine = 0, endLine = 5, oursContent = [],
       theirsContent = join [NL] [''<<<<<<< b'', ''======='', ''x'']\<rparr>] \<and>
   smartResolution [] (join [NL] [''<<<<<<< b'', ''======='', ''x'']) =
     (join [NL] [''<<<<<<< b'', ''======='', ''x''], ''theirs (ours empty)'') \<and>
   resolved (fst (applySmartResolution ''a.txt''
      [\<lparr>startLine = 0, endLine = 5, oursContent = [],
        theirsContent = join [NL] [''<<<<<<< b'', ''======='', ''x'']\<rparr>]
      \<lparr>files = [''a.txt'' \<mapsto> join [NL] [''<<<<<<< a'', ''======='', ''<<<<<<< b'', ''======='', ''x'',
                                          ''>>>>>>> c'', ''>>>>>>> d'']],
        repo = (), history = []\<rparr>)) = 1 \<and>
   files (snd (applySmartResolution ''a.txt''
      [\<lparr>startLine = 0, endLine = 5, oursContent = [],
        theirsContent = join [NL] [''<<<<<<< b'', ''======='', ''x'']\<rparr>]
      \<lparr>files = [''a.txt'' \<mapsto> join [NL] [''<<<<<<< a'', ''======='', ''<<<<<<< b'', ''======='', ''x'',
                                          ''>>>>>>> c'', ''>>>>>>> d'']],
        repo = (), history = []\<rparr>)) ''a.txt'' =
     Some (join [NL] [''<<<<<<< b'', ''======='', ''x'', ''>>>>>>> d'']) \<and>
   conflictBlocks (analyzeFileConflicts
      [''a.txt'' \<mapsto> join [NL] [''<<<<<<< b'', ''======='', ''x'', ''>>>>>>> d'']] ''a.txt'') =
     [\<lparr>startLine = 0, endLine = 3, oursContent = [], theirsContent = ''x''\<rparr>]"
  by (simp add: analyzeFileConflicts_def scanConflicts.simps applySmartResolution_def
      resolveBlock_def smartResolution_def writeFileSync_def splice_def slice_def
      trim_def isWhiteSpace_def startsWith_def)

end
